theory Spec2Isabelle
  imports Main "HOL-Library.Word" "HOL-Library.Multiset"
begin

unbundle bit_operations_syntax

section \<open>Go values as seen through package reflect\<close>

text \<open>
  \<^verbatim>\<open>hashstructure.go\<close> walks an arbitrary Go value with package \<^verbatim>\<open>reflect\<close>.
  The embedding represents a Go value as a finite tree (\<open>gval\<close>), one constructor
  per \<^verbatim>\<open>reflect.Kind\<close>, in the order of the \<^verbatim>\<open>reflect.Kind\<close> enumeration.
  A pointer or an interface slot holds \<open>None\<close> when it is nil. A cyclic value is not a
  finite tree and has no representation here: the source recurses on it without end.
\<close>

type_synonym byte = "8 word"
type_synonym uint64 = "64 word"

datatype Kind =
    Invalid | Bool | Int' | Int8 | Int16 | Int32 | Int64
  | Uint | Uint8 | Uint16 | Uint32 | Uint64 | Uintptr
  | Float32 | Float64 | Complex64 | Complex128
  | Array | Chan | Func | Interface | Map | Ptr | Slice | String | Struct | UnsafePointer

text \<open>The numeric value of a kind (\<^verbatim>\<open>iota\<close> order), used by the range test of \<open>visit\<close>.
  Kind \<^verbatim>\<open>Int\<close> is written \<open>Int'\<close>: \<open>Int\<close> is notation for set intersection.\<close>

fun kind_num :: "Kind \<Rightarrow> nat" where
  "kind_num Invalid = 0" | "kind_num Bool = 1" | "kind_num Int' = 2" | "kind_num Int8 = 3"
| "kind_num Int16 = 4" | "kind_num Int32 = 5" | "kind_num Int64 = 6" | "kind_num Uint = 7"
| "kind_num Uint8 = 8" | "kind_num Uint16 = 9" | "kind_num Uint32 = 10" | "kind_num Uint64 = 11"
| "kind_num Uintptr = 12" | "kind_num Float32 = 13" | "kind_num Float64 = 14"
| "kind_num Complex64 = 15" | "kind_num Complex128 = 16" | "kind_num Array = 17"
| "kind_num Chan = 18" | "kind_num Func = 19" | "kind_num Interface = 20" | "kind_num Map = 21"
| "kind_num Ptr = 22" | "kind_num Slice = 23" | "kind_num String = 24" | "kind_num Struct = 25"
| "kind_num UnsafePointer = 26"

text \<open>
  \<^verbatim>\<open>reflect.StructField\<close>: the name of a member, its \<^verbatim>\<open>PkgPath\<close> (empty exactly for
  an exported member) and its tag, a list of key/value pairs.
\<close>

record reflect_StructField =
  Name :: string
  PkgPath :: string
  Tag :: "(string \<times> string) list"

text \<open>
  Integers carry their bits; \<open>VInt\<close> and \<open>VUint\<close> carry what \<^verbatim>\<open>v.Int()\<close> and
  \<^verbatim>\<open>v.Uint()\<close> return (64 bits). A float carries its IEEE-754 bit pattern, which is
  what \<^verbatim>\<open>binary.Write\<close> emits. A struct carries the name of its type and its members
  in declaration order; a map carries its entries.
\<close>

datatype gval =
    VBool bool
  | VInt "64 word" | VInt8 "8 word" | VInt16 "16 word" | VInt32 "32 word" | VInt64 "64 word"
  | VUint "64 word" | VUint8 "8 word" | VUint16 "16 word" | VUint32 "32 word" | VUint64 "64 word"
  | VUintptr "64 word"
  | VFloat32 "32 word" | VFloat64 "64 word"
  | VComplex64 "32 word" "32 word" | VComplex128 "64 word" "64 word"
  | VArray "gval list"
  | VChan
  | VFunc
  | VInterface "gval option"
  | VMap "(gval \<times> gval) list"
  | VPtr "gval option"
  | VSlice "gval list"
  | VString "byte list"
  | VStruct string "(reflect_StructField \<times> gval) list"
  | VUnsafePointer

fun Kind_of :: "gval \<Rightarrow> Kind" where
  "Kind_of (VBool _) = Bool"
| "Kind_of (VInt _) = Int'" | "Kind_of (VInt8 _) = Int8" | "Kind_of (VInt16 _) = Int16"
| "Kind_of (VInt32 _) = Int32" | "Kind_of (VInt64 _) = Int64"
| "Kind_of (VUint _) = Uint" | "Kind_of (VUint8 _) = Uint8" | "Kind_of (VUint16 _) = Uint16"
| "Kind_of (VUint32 _) = Uint32" | "Kind_of (VUint64 _) = Uint64"
| "Kind_of (VUintptr _) = Uintptr"
| "Kind_of (VFloat32 _) = Float32" | "Kind_of (VFloat64 _) = Float64"
| "Kind_of (VComplex64 _ _) = Complex64" | "Kind_of (VComplex128 _ _) = Complex128"
| "Kind_of (VArray _) = Array" | "Kind_of VChan = Chan" | "Kind_of VFunc = Func"
| "Kind_of (VInterface _) = Interface" | "Kind_of (VMap _) = Map" | "Kind_of (VPtr _) = Ptr"
| "Kind_of (VSlice _) = Slice" | "Kind_of (VString _) = String"
| "Kind_of (VStruct _ _) = Struct" | "Kind_of VUnsafePointer = UnsafePointer"

text \<open>A Go string literal, as the bytes of its characters.\<close>

definition str :: "string \<Rightarrow> gval" where
  "str s = VString (map (\<lambda>c. of_nat (of_char c)) s)"

text \<open>
  A \<^verbatim>\<open>reflect.Value\<close> is a value with its flags. \<open>flagAddr\<close> is reflect's flag of
  the same name; \<open>flagRO\<close> says that the value was reached through an unexported struct
  member (reflect's \<^verbatim>\<open>flagStickyRO\<close> and \<^verbatim>\<open>flagEmbedRO\<close>, which \<^verbatim>\<open>CanSet\<close> and
  \<^verbatim>\<open>Interface\<close> test alike). The zero \<^verbatim>\<open>reflect.Value\<close> is \<open>None\<close>.
\<close>

datatype Value = Value (elem: gval) (flagAddr: bool) (flagRO: bool)

datatype error = ErrUnknownKind Kind | ErrBinaryWrite Kind | ErrOther string

text \<open>A call either returns or panics; a panic carries its message.\<close>

datatype 'a outcome = Return 'a | Panic string

definition ValueOf :: "gval option \<Rightarrow> Value option" where
  "ValueOf i = (case i of None \<Rightarrow> None | Some x \<Rightarrow> Some (Value x False False))"

definition CanSet :: "Value \<Rightarrow> bool" where
  "CanSet v = (flagAddr v \<and> \<not> flagRO v)"

text \<open>
  \<^verbatim>\<open>v.Interface()\<close> panics on a value obtained from an unexported member; on a value
  of kind Interface it returns the dynamic value inside.
\<close>

definition Interface_panic :: string where
  "Interface_panic =
     ''reflect.Value.Interface: cannot return value obtained from unexported field or method''"

definition Value_Interface :: "Value \<Rightarrow> gval option outcome" where
  "Value_Interface v =
     (if flagRO v then Panic Interface_panic
      else Return (case elem v of VInterface i \<Rightarrow> i | x \<Rightarrow> Some x))"

text \<open>\<^verbatim>\<open>v.Index(i)\<close>: an element of an array inherits \<open>flagAddr\<close>, an element of a slice is
  always addressable; both inherit \<open>flagRO\<close>.\<close>

definition Value_Index :: "Value \<Rightarrow> gval \<Rightarrow> Value" where
  "Value_Index v x = Value x (case elem v of VSlice _ \<Rightarrow> True | _ \<Rightarrow> flagAddr v) (flagRO v)"

text \<open>A key listed by \<^verbatim>\<open>v.MapKeys()\<close> and a value found by \<^verbatim>\<open>v.MapIndex(k)\<close>: not
  addressable, \<open>flagRO\<close> inherited.\<close>

definition MapElem :: "Value \<Rightarrow> gval \<Rightarrow> Value" where
  "MapElem v x = Value x False (flagRO v)"

text \<open>
  A map is given by its entries, each with its own key. \<^verbatim>\<open>v.MapKeys()\<close> lists every
  key, but \<^verbatim>\<open>v.MapIndex(k)\<close> finds the entry of \<open>k\<close> by Go's \<^verbatim>\<open>==\<close>, and a key that is not
  equal to itself is never found: a float NaN, a complex number with a NaN part, an
  array or a struct with such an element or (non-blank) member, an interface holding
  such a value. For such a key \<^verbatim>\<open>MapIndex\<close> returns the zero Value, on which
  \<^verbatim>\<open>Interface()\<close> panics. A NaN is a float whose exponent bits are all ones and whose
  fraction is not zero.
\<close>

definition isNaN32 :: "32 word \<Rightarrow> bool" where
  "isNaN32 b = (b AND 0x7F800000 = 0x7F800000 \<and> b AND 0x007FFFFF \<noteq> 0)"

definition isNaN64 :: "64 word \<Rightarrow> bool" where
  "isNaN64 b = (b AND 0x7FF0000000000000 = 0x7FF0000000000000 \<and> b AND 0x000FFFFFFFFFFFFF \<noteq> 0)"

function key_equal_itself :: "gval \<Rightarrow> bool" where
  "key_equal_itself (VFloat32 b) = (\<not> isNaN32 b)"
| "key_equal_itself (VFloat64 b) = (\<not> isNaN64 b)"
| "key_equal_itself (VComplex64 re im) = (\<not> isNaN32 re \<and> \<not> isNaN32 im)"
| "key_equal_itself (VComplex128 re im) = (\<not> isNaN64 re \<and> \<not> isNaN64 im)"
| "key_equal_itself (VArray xs) = list_all key_equal_itself xs"
| "key_equal_itself (VStruct tn fs) =
     list_all (\<lambda>f. Name (fst f) = ''_'' \<or> key_equal_itself (snd f)) fs"
| "key_equal_itself (VInterface i) = (case i of None \<Rightarrow> True | Some x \<Rightarrow> key_equal_itself x)"
| "key_equal_itself (VBool b) = True"
| "key_equal_itself (VInt n) = True"
| "key_equal_itself (VInt8 n) = True"
| "key_equal_itself (VInt16 n) = True"
| "key_equal_itself (VInt32 n) = True"
| "key_equal_itself (VInt64 n) = True"
| "key_equal_itself (VUint n) = True"
| "key_equal_itself (VUint8 n) = True"
| "key_equal_itself (VUint16 n) = True"
| "key_equal_itself (VUint32 n) = True"
| "key_equal_itself (VUint64 n) = True"
| "key_equal_itself (VUintptr n) = True"
| "key_equal_itself VChan = True"
| "key_equal_itself VFunc = True"
| "key_equal_itself (VMap es) = True"
| "key_equal_itself (VPtr p) = True"
| "key_equal_itself (VSlice xs) = True"
| "key_equal_itself (VString s) = True"
| "key_equal_itself VUnsafePointer = True"
  by pat_completeness auto
termination
proof (relation "measure size", goal_cases)
  case 1
  show ?case by simp
next
  case (2 xs x)
  then show ?case using size_list_estimation' [of x xs "size x" size] by simp
next
  case (3 tn fs f)
  then have "f \<in> set fs" by simp
  then have "size (snd f) \<le> size_list (size_prod (\<lambda>_. 0) size) fs"
    by (rule size_list_estimation') (cases f, simp)
  then show ?case by simp
next
  case (4 i x)
  then show ?case by simp
qed

definition MapIndex :: "Value \<Rightarrow> gval \<times> gval \<Rightarrow> Value option" where
  "MapIndex v e = (if key_equal_itself (fst e) then Some (MapElem v (snd e)) else None)"

definition zero_Value_panic :: string where
  "zero_Value_panic = ''reflect: call of reflect.Value.Interface on zero Value''"

text \<open>\<^verbatim>\<open>v.Interface()\<close> on a Value that may be the zero Value.\<close>

definition Interface_of :: "Value option \<Rightarrow> gval option outcome" where
  "Interface_of v = (case v of None \<Rightarrow> Panic zero_Value_panic | Some x \<Rightarrow> Value_Interface x)"

text \<open>\<^verbatim>\<open>v.Field(i)\<close>: inherits both flags and is read-only when the member is unexported.\<close>

definition Value_Field :: "Value \<Rightarrow> reflect_StructField \<times> gval \<Rightarrow> Value" where
  "Value_Field v f = Value (snd f) (flagAddr v) (flagRO v \<or> PkgPath (fst f) \<noteq> [])"

text \<open>\<^verbatim>\<open>StructTag.Get\<close>: the value under a key, the empty string when the key is absent.\<close>

definition Tag_Get :: "(string \<times> string) list \<Rightarrow> string \<Rightarrow> string" where
  "Tag_Get t key = (case map_of t key of None \<Rightarrow> [] | Some x \<Rightarrow> x)"

section \<open>The accumulator\<close>

text \<open>
  Package \<^verbatim>\<open>hash/crc64\<close> belongs to the Go standard library, not to the repository. Its
  digest is modelled after the library: the table of a polynomial, the byte-wise
  \<^verbatim>\<open>update\<close> with the complement before and after, and a digest object holding the
  running \<^verbatim>\<open>crc\<close>.
\<close>

definition ECMA :: uint64 where
  "ECMA = 0xC96C5795D7870F42"

definition MakeTable :: "uint64 \<Rightarrow> byte \<Rightarrow> uint64" where
  "MakeTable poly i =
     ((\<lambda>crc. if crc AND 1 = 1 then drop_bit 1 crc XOR poly else drop_bit 1 crc) ^^ 8) (ucast i)"

definition update :: "uint64 \<Rightarrow> (byte \<Rightarrow> uint64) \<Rightarrow> byte list \<Rightarrow> uint64" where
  "update crc tab p =
     NOT (fold (\<lambda>v crc. tab (ucast crc XOR v) XOR drop_bit 8 crc) p (NOT crc))"

text \<open>
  \<^verbatim>\<open>hash.Hash64\<close>: either the library's CRC-64 digest (its running \<^verbatim>\<open>crc\<close> and its
  table) or an implementation supplied by the caller, given by its state and its
  three methods \<^verbatim>\<open>Write\<close>, \<^verbatim>\<open>Reset\<close> and \<^verbatim>\<open>Sum64\<close>.
\<close>

datatype 's Hash64 =
    Crc64 uint64 "byte \<Rightarrow> uint64"
  | Custom 's "'s \<Rightarrow> byte list \<Rightarrow> 's \<times> error option" "'s \<Rightarrow> 's" "'s \<Rightarrow> uint64"

definition crc64_New :: "(byte \<Rightarrow> uint64) \<Rightarrow> 's Hash64" where
  "crc64_New tab = Crc64 0 tab"

fun Write :: "'s Hash64 \<Rightarrow> byte list \<Rightarrow> 's Hash64 \<times> error option" where
  "Write (Crc64 crc tab) p = (Crc64 (update crc tab p) tab, None)"
| "Write (Custom s wr rs sm) p = (case wr s p of (s', err) \<Rightarrow> (Custom s' wr rs sm, err))"

fun Reset :: "'s Hash64 \<Rightarrow> 's Hash64" where
  "Reset (Crc64 crc tab) = Crc64 0 tab"
| "Reset (Custom s wr rs sm) = Custom (rs s) wr rs sm"

fun Sum64 :: "'s Hash64 \<Rightarrow> uint64" where
  "Sum64 (Crc64 crc tab) = crc"
| "Sum64 (Custom s wr rs sm) = sm s"

text \<open>
  \<^verbatim>\<open>binary.Write(w, binary.LittleEndian, data)\<close> of package \<^verbatim>\<open>encoding/binary\<close>:
  the fixed-size encoding of \<open>data\<close>, written to \<open>w\<close> in one \<^verbatim>\<open>Write\<close>; a kind with no
  fixed size (\<^verbatim>\<open>int\<close>, \<^verbatim>\<open>uint\<close>, \<^verbatim>\<open>uintptr\<close>) is an error and nothing is written.
  \<open>visit\<close> calls it on values of the numeric kinds only.
\<close>

definition le_bytes :: "nat \<Rightarrow> 'a::len word \<Rightarrow> byte list" where
  "le_bytes n x = map (\<lambda>i. ucast (drop_bit (8 * i) x)) [0..<n]"

fun encode :: "gval \<Rightarrow> byte list option" where
  "encode (VBool b) = Some [if b then 1 else 0]"
| "encode (VInt8 x) = Some (le_bytes 1 x)"
| "encode (VInt16 x) = Some (le_bytes 2 x)"
| "encode (VInt32 x) = Some (le_bytes 4 x)"
| "encode (VInt64 x) = Some (le_bytes 8 x)"
| "encode (VUint8 x) = Some (le_bytes 1 x)"
| "encode (VUint16 x) = Some (le_bytes 2 x)"
| "encode (VUint32 x) = Some (le_bytes 4 x)"
| "encode (VUint64 x) = Some (le_bytes 8 x)"
| "encode (VFloat32 x) = Some (le_bytes 4 x)"
| "encode (VFloat64 x) = Some (le_bytes 8 x)"
| "encode (VComplex64 re im) = Some (le_bytes 4 re @ le_bytes 4 im)"
| "encode (VComplex128 re im) = Some (le_bytes 8 re @ le_bytes 8 im)"
| "encode _ = None"

definition binary_Write :: "'s Hash64 \<Rightarrow> gval option \<Rightarrow> error option outcome \<times> 's Hash64" where
  "binary_Write w data =
     (case data of
        None \<Rightarrow> (Return (Some (ErrBinaryWrite Invalid)), w)
      | Some d \<Rightarrow>
          (case encode d of
             None \<Rightarrow> (Return (Some (ErrBinaryWrite (Kind_of d))), w)
           | Some bs \<Rightarrow> (case Write w bs of (w', err) \<Rightarrow> (Return err, w'))))"


section \<open>The hashing engine\<close>

text \<open>
  What lies outside \<^verbatim>\<open>hashstructure.go\<close> is a parameter of the model (\<open>env\<close>):
  \<^item> \<open>MapOrder\<close>: Go leaves the order of \<^verbatim>\<open>v.MapKeys()\<close> unspecified. The model lists
    the entries of a map sorted by a rank that the environment chooses for this map.
    A constant rank lists them as they stand in the value; every order of a map with
    distinct keys is the order of some rank.
  \<^item> \<open>Includable\<close> and \<open>IncludableMap\<close>: the two hook interfaces are declared in another
    file of the repository and implemented by the caller's types. \<open>Includable env p\<close>
    is the method \<^verbatim>\<open>HashInclude\<close> of the value \<open>p\<close> when its type implements the
    interface (the type assertion \<^verbatim>\<open>parent.(Includable)\<close> succeeds), and \<open>None\<close>
    otherwise; likewise \<open>IncludableMap\<close> and \<^verbatim>\<open>HashIncludeMap\<close>. A method is taken to be
    a function of its receiver and its arguments that returns.
\<close>

record env =
  MapOrder :: "(gval \<times> gval) list \<Rightarrow> gval \<times> gval \<Rightarrow> nat"
  Includable :: "gval \<Rightarrow> (string \<Rightarrow> Value \<Rightarrow> bool \<times> error option) option"
  IncludableMap :: "gval \<Rightarrow> (string \<Rightarrow> gval option \<Rightarrow> gval option \<Rightarrow> bool \<times> error option) option"

definition MapKeys :: "env \<Rightarrow> (gval \<times> gval) list \<Rightarrow> (gval \<times> gval) list" where
  "MapKeys env es = sort_key (MapOrder env es) es"

record 's HashOptions =
  Hasher :: "'s Hash64 option"
  TagName :: string

type_synonym visitFlag = "64 word"

definition visitFlagInvalid :: visitFlag where
  "visitFlagInvalid = 0"

definition visitFlagSet :: visitFlag where
  "visitFlagSet = push_bit 1 1"

record visitOpts =
  Flags :: visitFlag
  Struct :: "gval option"
  StructField :: string

text \<open>
  The loop at the head of \<open>visit\<close>: an interface is replaced by its element
  (\<^verbatim>\<open>v.Elem()\<close>), a pointer by what it points to (\<^verbatim>\<open>reflect.Indirect\<close>), until the
  value is neither. The element of a nil interface or pointer is the zero Value.
\<close>

function (sequential) indirect :: "Value \<Rightarrow> Value option" where
  "indirect (Value (VInterface None) a r) = None"
| "indirect (Value (VInterface (Some x)) a r) = indirect (Value x False r)"
| "indirect (Value (VPtr None) a r) = None"
| "indirect (Value (VPtr (Some x)) a r) = indirect (Value x True r)"
| "indirect v = Some v"
  by pat_completeness auto
termination
  by (relation "measure (\<lambda>v. size (elem v))") auto

text \<open>The first \<^verbatim>\<open>switch v.Kind()\<close>: \<^verbatim>\<open>int\<close>, \<^verbatim>\<open>uint\<close> and \<^verbatim>\<open>bool\<close> become sized integers.\<close>

definition widen :: "Value \<Rightarrow> Value" where
  "widen v =
     (case elem v of
        VInt n \<Rightarrow> Value (VInt64 n) False False
      | VUint n \<Rightarrow> Value (VUint64 n) False False
      | VBool b \<Rightarrow> Value (VInt8 (if b then 1 else 0)) False False
      | _ \<Rightarrow> v)"

text \<open>
  A \<^verbatim>\<open>for\<close> loop whose body may return from the function: the body is run on each
  element in turn, threading the loop's variables, until it returns an error or panics.
\<close>

fun for_each :: "('a \<Rightarrow> 'b \<Rightarrow> error option outcome \<times> 'b) \<Rightarrow> 'a list \<Rightarrow> 'b \<Rightarrow> error option outcome \<times> 'b" where
  "for_each body [] s = (Return None, s)"
| "for_each body (x # xs) s =
     (case body x s of
        (Return None, s') \<Rightarrow> for_each body xs s'
      | r \<Rightarrow> r)"

lemma for_each_cong [fundef_cong]:
  "xs = ys \<Longrightarrow> s = t \<Longrightarrow> (\<And>x u. x \<in> set ys \<Longrightarrow> f x u = g x u) \<Longrightarrow> for_each f xs s = for_each g ys t"
proof (induction ys arbitrary: xs s t)
  case Nil
  then show ?case by simp
next
  case (Cons y ys)
  then show ?case by (auto split: prod.splits outcome.splits option.splits)
qed

text \<open>
  For the termination argument: \<open>head v\<close> is the value that \<open>visit\<close> dispatches on, once
  the loop and the first switch have run, and it is no larger than \<open>v\<close>.
\<close>

fun vsize :: "Value option \<Rightarrow> nat" where
  "vsize None = 0"
| "vsize (Some v) = size (elem v)"

fun isize :: "gval option \<Rightarrow> nat" where
  "isize None = 0"
| "isize (Some x) = size x"

lemma indirect_size: "indirect v = Some v' \<Longrightarrow> size (elem v') \<le> size (elem v)"
  by (induction v arbitrary: v' rule: indirect.induct) auto

lemma widen_size: "size (elem (widen v)) \<le> size (elem v)"
  by (cases "elem v") (auto simp: widen_def)

definition head :: "Value option \<Rightarrow> Value" where
  "head v = widen (case (case v of None \<Rightarrow> None | Some x \<Rightarrow> indirect x) of
      None \<Rightarrow> Value (VInt8 0) False False | Some x \<Rightarrow> x)"

lemma head_size: "size (elem (head v)) \<le> vsize v"
proof (cases v)
  case None
  then show ?thesis by (simp add: head_def widen_def)
next
  case (Some x)
  show ?thesis
  proof (cases "indirect x")
    case None
    with Some show ?thesis by (simp add: head_def widen_def)
  next
    case (Some y)
    with \<open>v = Some x\<close> indirect_size [OF Some] widen_size [of y] show ?thesis
      by (simp add: head_def)
  qed
qed

lemma isize_option: "isize i \<le> size_option size i"
  by (cases i) auto

lemma Value_Interface_size: "Value_Interface v = Return i \<Longrightarrow> isize i \<le> size (elem v)"
  using isize_option [of i]
  by (cases "elem v") (auto simp: Value_Interface_def le_Suc_eq split: if_splits)

lemma Interface_of_MapIndex_size: "Interface_of (MapIndex v e) = Return i \<Longrightarrow> isize i \<le> size (snd e)"
  using Value_Interface_size [of "MapElem v (snd e)" i]
  by (auto simp: Interface_of_def MapIndex_def MapElem_def split: if_splits)

lemma set_MapKeys [simp]: "set (MapKeys env es) = set es"
  by (simp add: MapKeys_def)

lemma mset_MapKeys [simp]: "mset (MapKeys env es) = mset es"
  by (simp add: MapKeys_def)

lemma in_array: "elem (head v) = VArray xs \<Longrightarrow> x \<in> set xs \<Longrightarrow> size x < vsize v"
  using head_size [of v] size_list_estimation' [of x xs "size x" size] by simp

lemma in_slice: "elem (head v) = VSlice xs \<Longrightarrow> x \<in> set xs \<Longrightarrow> size x < vsize v"
  using head_size [of v] size_list_estimation' [of x xs "size x" size] by simp

lemma in_struct: "elem (head v) = VStruct tn fs \<Longrightarrow> f \<in> set fs \<Longrightarrow> size (snd f) < vsize v"
  using head_size [of v]
    size_list_estimation' [of f fs "size (snd f)" "size_prod (\<lambda>_. 0) size"]
  by (cases f) simp

lemma in_map:
  "elem (head v) = VMap es \<Longrightarrow> e \<in> set es \<Longrightarrow> size (fst e) < vsize v \<and> size (snd e) < vsize v"
  using head_size [of v]
    size_list_estimation' [of e es "size (fst e) + size (snd e)" "size_prod size size"]
  by (cases e) simp

text \<open>
  \<open>Hash\<close> and \<open>visit\<close>, as in the source. \<open>Hash\<close> also returns what the caller's
  \<^verbatim>\<open>*HashOptions\<close> points to after the call (\<open>None\<close> for a nil pointer): the source
  assigns the defaults through the pointer, and the accumulator is an object that the
  call resets and writes to. The two fields of the walker are the parameters \<open>tag\<close> and
  \<open>w\<close>; \<open>visit\<close> returns the accumulator with its result. The loop variables of the
  map and of the set-tagged slice are the running total \<^verbatim>\<open>h\<close>.
\<close>

function Hash :: "env \<Rightarrow> gval option \<Rightarrow> 's HashOptions option \<Rightarrow> (uint64 \<times> error option) outcome \<times> 's HashOptions option"
  and visit :: "env \<Rightarrow> string \<Rightarrow> 's Hash64 \<Rightarrow> Value option \<Rightarrow> visitOpts option \<Rightarrow> error option outcome \<times> 's Hash64"
where
  "Hash env v opts =
    (let opts1 = (case opts of None \<Rightarrow> \<lparr>Hasher = None, TagName = []\<rparr> | Some given \<Rightarrow> given);
         opts2 = (if Hasher opts1 = None then opts1\<lparr>Hasher := Some (crc64_New (MakeTable ECMA))\<rparr> else opts1);
         opts3 = (if TagName opts2 = [] then opts2\<lparr>TagName := ''hash''\<rparr> else opts2)
     in (case Hasher opts3 of
           None \<Rightarrow> (Panic ''invalid memory address or nil pointer dereference'',
                     (case opts of None \<Rightarrow> None | Some _ \<Rightarrow> Some opts3))
         | Some h \<Rightarrow>
            (case visit env (TagName opts3) (Reset h) (ValueOf v) None of
               (r, w') \<Rightarrow>
                 (let caller = (case opts of None \<Rightarrow> None
                                | Some _ \<Rightarrow> Some (opts3\<lparr>Hasher := Some w'\<rparr>))
                  in (case r of
                        Panic m \<Rightarrow> (Panic m, caller)
                      | Return (Some err) \<Rightarrow> (Return (0, Some err), caller)
                      | Return None \<Rightarrow> (Return (Sum64 w', None), caller))))))"
| "visit env tag w v opts =
    (let v1 = (case v of None \<Rightarrow> None | Some x \<Rightarrow> indirect x);
         v2 = (case v1 of None \<Rightarrow> Value (VInt8 0) False False | Some x \<Rightarrow> x);
         v3 = widen v2;
         k = Kind_of (elem v3)
     in if kind_num Int' \<le> kind_num k \<and> kind_num k \<le> kind_num Complex64 then
          (case Value_Interface v3 of
             Panic m \<Rightarrow> (Panic m, w)
           | Return data \<Rightarrow> binary_Write w data)
        else
          (case elem v3 of
             VArray xs \<Rightarrow>
               for_each (\<lambda>x w. visit env tag w (Some (Value_Index v3 x)) None) xs w
           | VMap es \<Rightarrow>
               (let includeMap =
                      (case opts of
                         None \<Rightarrow> None
                       | Some vo \<Rightarrow> (case Struct vo of None \<Rightarrow> None | Some p \<Rightarrow> IncludableMap env p))
                in (case for_each
                      (\<lambda>e h.
                         (case (case includeMap of
                                  None \<Rightarrow> (Return None, True)
                                | Some hook \<Rightarrow>
                                    (case Value_Interface (MapElem v3 (fst e)) of
                                       Panic m \<Rightarrow> (Panic m, False)
                                     | Return ki \<Rightarrow>
                                        (case Interface_of (MapIndex v3 e) of
                                           Panic m \<Rightarrow> (Panic m, False)
                                         | Return vi \<Rightarrow>
                                             (case hook (case opts of None \<Rightarrow> [] | Some vo \<Rightarrow> StructField vo) ki vi of
                                                (incl, err) \<Rightarrow> (Return err, incl))))) of
                            (Panic m, _) \<Rightarrow> (Panic m, h)
                          | (Return (Some err), _) \<Rightarrow> (Return (Some err), h)
                          | (Return None, False) \<Rightarrow> (Return None, h)
                          | (Return None, True) \<Rightarrow>
                              (case Value_Interface (MapElem v3 (fst e)) of
                                 Panic m \<Rightarrow> (Panic m, h)
                               | Return ki \<Rightarrow>
                                  (case fst (Hash env ki None) of
                                     Panic m \<Rightarrow> (Panic m, h)
                                   | Return (kh, Some err) \<Rightarrow> (Return (Some err), h)
                                   | Return (kh, None) \<Rightarrow>
                                      (case Interface_of (MapIndex v3 e) of
                                         Panic m \<Rightarrow> (Panic m, h)
                                       | Return vi \<Rightarrow>
                                          (case fst (Hash env vi None) of
                                             Panic m \<Rightarrow> (Panic m, h)
                                           | Return (vh, Some err) \<Rightarrow> (Return (Some err), h)
                                           | Return (vh, None) \<Rightarrow> (Return None, h XOR kh XOR vh)))))))
                      (MapKeys env es) 0 of
                      (Return None, h) \<Rightarrow> binary_Write w (Some (VUint64 h))
                    | (r, h) \<Rightarrow> (r, w)))
           | VStruct tn fs \<Rightarrow>
               (case Value_Interface v3 of
                  Panic m \<Rightarrow> (Panic m, w)
                | Return parent \<Rightarrow>
                   (let includable = (case parent of None \<Rightarrow> None | Some p \<Rightarrow> Includable env p)
                    in for_each
                         (\<lambda>f w.
                            if CanSet (Value_Field v3 f) \<or> Name (fst f) \<noteq> ''_'' then
                              (let tagv = Tag_Get (Tag (fst f)) tag
                               in if tagv = ''ignore'' then (Return None, w)
                                  else
                                    (case (case includable of
                                             None \<Rightarrow> (True, None)
                                           | Some hook \<Rightarrow> hook (Name (fst f)) (Value_Field v3 f)) of
                                       (incl, Some err) \<Rightarrow> (Return (Some err), w)
                                     | (False, None) \<Rightarrow> (Return None, w)
                                     | (True, None) \<Rightarrow>
                                         visit env tag w (Some (Value_Field v3 f))
                                           (Some \<lparr>Flags = (if tagv = ''set'' then visitFlagInvalid OR visitFlagSet else visitFlagInvalid),
                                                  Struct = parent, StructField = Name (fst f)\<rparr>)))
                            else (Return None, w))
                         fs w))
           | VSlice xs \<Rightarrow>
               (let is_set = (case opts of None \<Rightarrow> False | Some vo \<Rightarrow> Flags vo AND visitFlagSet \<noteq> 0)
                in (case for_each
                      (\<lambda>x wh.
                         if is_set then
                           (case Value_Interface (Value_Index v3 x) of
                              Panic m \<Rightarrow> (Panic m, wh)
                            | Return xi \<Rightarrow>
                               (case fst (Hash env xi None) of
                                  Panic m \<Rightarrow> (Panic m, wh)
                                | Return (hc, err) \<Rightarrow> (Return err, (fst wh, snd wh XOR hc))))
                         else
                           (case visit env tag (fst wh) (Some (Value_Index v3 x)) None of
                              (r, w') \<Rightarrow> (r, (w', snd wh))))
                      xs (w, 0) of
                      (Return None, wh) \<Rightarrow>
                        if is_set then binary_Write (fst wh) (Some (VUint64 (snd wh)))
                        else (Return None, fst wh)
                    | (r, wh) \<Rightarrow> (r, fst wh)))
           | VString s \<Rightarrow> (case Write w s of (w', err) \<Rightarrow> (Return err, w'))
           | _ \<Rightarrow> (Return (Some (ErrUnknownKind k)), w)))"
  by pat_completeness auto
termination
proof (relation "measure (\<lambda>x. case x of Inl (env, v, opts) \<Rightarrow> 2 * isize v + 1
                                        | Inr (env, tag, w, v, opts) \<Rightarrow> 2 * vsize v)",
       simp_all only: head_def [symmetric], goal_cases)
  case 1
  show ?case by simp
next
  case 2
  show ?case by (simp add: ValueOf_def split: option.splits)
next
  case (3 env tag w v opts v1 v2 v3 k xs x u)
  then have "size x < vsize v" by (simp add: in_array)
  then show ?case by (simp add: Value_Index_def)
next
  case (4 env tag w v opts v1 v2 v3 k es includeMap e h r incl err ki)
  then have "size (fst e) < vsize v" "isize ki \<le> size (fst e)"
    using in_map [of v es e] Value_Interface_size [of "MapElem (head v) (fst e)" ki]
    by (simp_all add: MapElem_def)
  then show ?case by simp
next
  case (5 env tag w v opts v1 v2 v3 k es includeMap e h r incl err ki kr kh kerr vi)
  then have "size (snd e) < vsize v" "isize vi \<le> size (snd e)"
    using in_map [of v es e] Interface_of_MapIndex_size [of "head v" e vi]
    by simp_all
  then show ?case by simp
next
  case (6 env tag w v opts v1 v2 v3 k xs is_set x wh xi)
  then have "size x < vsize v" "isize xi \<le> size x"
    using in_slice [of v xs x] Value_Interface_size [of "Value_Index (head v) x" xi]
    by (simp_all add: Value_Index_def)
  then show ?case by simp
next
  case (7 env tag w v opts v1 v2 v3 k xs is_set x wh)
  then have "size x < vsize v" by (simp add: in_slice)
  then show ?case by (simp add: Value_Index_def)
next
  case (8 env tag w v opts v1 v2 v3 k tn fs parent includable f u tagv incl err)
  then have "size (snd f) < vsize v" by (simp add: in_struct)
  then show ?case by (simp add: Value_Field_def)
qed

declare Hash.simps [simp del] visit.simps [simp del]

section \<open>The equations of \<open>visit\<close>, kind by kind\<close>

text \<open>
  The equations below restate \<open>visit\<close> kind by kind. The bodies of its loops are named
  first; \<open>sub\<close> stands for the nested call \<^verbatim>\<open>Hash(x, nil)\<close>.
\<close>

definition include_map :: "env \<Rightarrow> visitOpts option \<Rightarrow> (gval option \<Rightarrow> gval option \<Rightarrow> bool \<times> error option) option" where
  "include_map env opts =
     (case opts of
        None \<Rightarrow> None
      | Some vo \<Rightarrow>
          (case Struct vo of
             None \<Rightarrow> None
           | Some p \<Rightarrow> (case IncludableMap env p of None \<Rightarrow> None | Some hook \<Rightarrow> Some (hook (StructField vo)))))"

definition sub_hash :: "(gval option \<Rightarrow> (uint64 \<times> error option) outcome) \<Rightarrow> bool \<Rightarrow> gval \<Rightarrow> (uint64 \<times> error option) outcome" where
  "sub_hash sub r x =
     (case Value_Interface (Value x False r) of
        Panic m \<Rightarrow> Panic m
      | Return i \<Rightarrow> sub i)"

text \<open>The value of an entry, as \<^verbatim>\<open>v.MapIndex(k).Interface()\<close> gives it, and its sub-digest.\<close>

definition value_iface :: "bool \<Rightarrow> gval \<times> gval \<Rightarrow> gval option outcome" where
  "value_iface r e =
     (if key_equal_itself (fst e) then Value_Interface (Value (snd e) False r)
      else Panic zero_Value_panic)"

definition val_hash :: "(gval option \<Rightarrow> (uint64 \<times> error option) outcome) \<Rightarrow> bool \<Rightarrow> gval \<times> gval \<Rightarrow> (uint64 \<times> error option) outcome" where
  "val_hash sub r e =
     (case value_iface r e of
        Panic m \<Rightarrow> Panic m
      | Return i \<Rightarrow> sub i)"

text \<open>The consultation of the \<^verbatim>\<open>IncludableMap\<close> hook for an entry: what it returns as
  error, and whether the entry is kept.\<close>

definition hook_gate :: "(gval option \<Rightarrow> gval option \<Rightarrow> bool \<times> error option) option \<Rightarrow> bool
    \<Rightarrow> gval \<times> gval \<Rightarrow> error option outcome \<times> bool" where
  "hook_gate inc r e =
     (case inc of
        None \<Rightarrow> (Return None, True)
      | Some hook \<Rightarrow>
          (case Value_Interface (Value (fst e) False r) of
             Panic m \<Rightarrow> (Panic m, False)
           | Return ki \<Rightarrow>
              (case value_iface r e of
                 Panic m \<Rightarrow> (Panic m, False)
               | Return vi \<Rightarrow> (case hook ki vi of (incl, err) \<Rightarrow> (Return err, incl)))))"

definition map_body :: "(gval option \<Rightarrow> (uint64 \<times> error option) outcome) \<Rightarrow> bool
    \<Rightarrow> (gval option \<Rightarrow> gval option \<Rightarrow> bool \<times> error option) option
    \<Rightarrow> gval \<times> gval \<Rightarrow> uint64 \<Rightarrow> error option outcome \<times> uint64" where
  "map_body sub r inc e h =
     (case hook_gate inc r e of
        (Panic m, _) \<Rightarrow> (Panic m, h)
      | (Return (Some err), _) \<Rightarrow> (Return (Some err), h)
      | (Return None, False) \<Rightarrow> (Return None, h)
      | (Return None, True) \<Rightarrow>
          (case sub_hash sub r (fst e) of
             Panic m \<Rightarrow> (Panic m, h)
           | Return (kh, Some err) \<Rightarrow> (Return (Some err), h)
           | Return (kh, None) \<Rightarrow>
              (case val_hash sub r e of
                 Panic m \<Rightarrow> (Panic m, h)
               | Return (vh, Some err) \<Rightarrow> (Return (Some err), h)
               | Return (vh, None) \<Rightarrow> (Return None, h XOR kh XOR vh))))"

definition set_body :: "(gval option \<Rightarrow> (uint64 \<times> error option) outcome) \<Rightarrow> bool
    \<Rightarrow> gval \<Rightarrow> uint64 \<Rightarrow> error option outcome \<times> uint64" where
  "set_body sub r x h =
     (case sub_hash sub r x of
        Panic m \<Rightarrow> (Panic m, h)
      | Return (hc, err) \<Rightarrow> (Return err, h XOR hc))"

lemma visit_head_cong: "head v = head v' \<Longrightarrow> visit env tag w v opts = visit env tag w v' opts"
  by (subst visit.simps, subst (2) visit.simps) (simp only: Let_def head_def [symmetric])

lemma head_simps:
  "head None = Value (VInt8 0) False False"
  "head (Some (Value (VPtr None) a r)) = Value (VInt8 0) False False"
  "head (Some (Value (VInterface None) a r)) = Value (VInt8 0) False False"
  "head (Some (Value (VPtr (Some x)) a r)) = head (Some (Value x True r))"
  "head (Some (Value (VInterface (Some x)) a r)) = head (Some (Value x False r))"
  "head (Some (Value (VArray xs) a r)) = Value (VArray xs) a r"
  "head (Some (Value (VSlice xs) a r)) = Value (VSlice xs) a r"
  "head (Some (Value (VMap es) a r)) = Value (VMap es) a r"
  "head (Some (Value (VStruct tn fs) a r)) = Value (VStruct tn fs) a r"
  "head (Some (Value (VString s) a r)) = Value (VString s) a r"
  by (simp_all add: head_def widen_def)

lemma visit_nil:
  "visit env tag w None opts = binary_Write w (Some (VInt8 0))"
  "visit env tag w (Some (Value (VPtr None) a r)) opts = binary_Write w (Some (VInt8 0))"
  "visit env tag w (Some (Value (VInterface None) a r)) opts = binary_Write w (Some (VInt8 0))"
  by (subst visit.simps, simp add: Let_def widen_def Value_Interface_def)+

lemma visit_indirect:
  "visit env tag w (Some (Value (VPtr (Some x)) a r)) opts = visit env tag w (Some (Value x True r)) opts"
  "visit env tag w (Some (Value (VInterface (Some x)) a r)) opts = visit env tag w (Some (Value x False r)) opts"
  by (rule visit_head_cong, simp add: head_def)+

lemma visit_widened:
  "visit env tag w (Some (Value (VInt n) a r)) opts = binary_Write w (Some (VInt64 n))"
  "visit env tag w (Some (Value (VUint n) a r)) opts = binary_Write w (Some (VUint64 n))"
  "visit env tag w (Some (Value (VBool b) a r)) opts = binary_Write w (Some (VInt8 (if b then 1 else 0)))"
  by (subst visit.simps, simp add: Let_def widen_def Value_Interface_def)+

definition write_numeric :: "'s Hash64 \<Rightarrow> bool \<Rightarrow> gval \<Rightarrow> error option outcome \<times> 's Hash64" where
  "write_numeric w r x = (if r then (Panic Interface_panic, w) else binary_Write w (Some x))"

lemma visit_numeric:
  "visit env tag w (Some (Value (VInt8 i8) a r)) opts = write_numeric w r (VInt8 i8)"
  "visit env tag w (Some (Value (VInt16 i16) a r)) opts = write_numeric w r (VInt16 i16)"
  "visit env tag w (Some (Value (VInt32 i32) a r)) opts = write_numeric w r (VInt32 i32)"
  "visit env tag w (Some (Value (VInt64 i64) a r)) opts = write_numeric w r (VInt64 i64)"
  "visit env tag w (Some (Value (VUint8 u8) a r)) opts = write_numeric w r (VUint8 u8)"
  "visit env tag w (Some (Value (VUint16 u16) a r)) opts = write_numeric w r (VUint16 u16)"
  "visit env tag w (Some (Value (VUint32 u32) a r)) opts = write_numeric w r (VUint32 u32)"
  "visit env tag w (Some (Value (VUint64 u64) a r)) opts = write_numeric w r (VUint64 u64)"
  "visit env tag w (Some (Value (VUintptr p) a r)) opts = write_numeric w r (VUintptr p)"
  "visit env tag w (Some (Value (VFloat32 f32) a r)) opts = write_numeric w r (VFloat32 f32)"
  "visit env tag w (Some (Value (VFloat64 f64) a r)) opts = write_numeric w r (VFloat64 f64)"
  "visit env tag w (Some (Value (VComplex64 re im) a r)) opts = write_numeric w r (VComplex64 re im)"
  by (subst visit.simps, simp add: Let_def widen_def Value_Interface_def write_numeric_def)+

lemma visit_unknown:
  "visit env tag w (Some (Value (VComplex128 re im) a r)) opts = (Return (Some (ErrUnknownKind Complex128)), w)"
  "visit env tag w (Some (Value VChan a r)) opts = (Return (Some (ErrUnknownKind Chan)), w)"
  "visit env tag w (Some (Value VFunc a r)) opts = (Return (Some (ErrUnknownKind Func)), w)"
  "visit env tag w (Some (Value VUnsafePointer a r)) opts = (Return (Some (ErrUnknownKind UnsafePointer)), w)"
  by (subst visit.simps, simp add: Let_def widen_def)+

lemma visit_VString:
  "visit env tag w (Some (Value (VString s) a r)) opts = (case Write w s of (w', err) \<Rightarrow> (Return err, w'))"
  by (subst visit.simps) (simp add: Let_def widen_def)

lemma visit_VArray:
  "visit env tag w (Some (Value (VArray xs) a r)) opts =
     for_each (\<lambda>x w. visit env tag w (Some (Value x a r)) None) xs w"
  by (subst visit.simps) (simp add: Let_def widen_def Value_Index_def)

lemma Interface_of_MapIndex: "Interface_of (MapIndex (Value x a r) e) = value_iface r e"
  by (simp add: Interface_of_def MapIndex_def MapElem_def value_iface_def)

lemma visit_VMap:
  "visit env tag w (Some (Value (VMap es) a r)) opts =
     (case for_each (map_body (\<lambda>i. fst (Hash env i (None :: 's HashOptions option))) r (include_map env opts)) (MapKeys env es) 0 of
        (Return None, h) \<Rightarrow> binary_Write w (Some (VUint64 h))
      | (res, h) \<Rightarrow> (res, (w :: 's Hash64)))"
proof -
  have gate: "(case (case opts of None \<Rightarrow> None
                       | Some vo \<Rightarrow> (case Struct vo of None \<Rightarrow> None | Some p \<Rightarrow> IncludableMap env p)) of
                None \<Rightarrow> (Return None, True)
              | Some hook \<Rightarrow>
                  (case Value_Interface (Value (fst e) False r) of
                     Panic m \<Rightarrow> (Panic m, False)
                   | Return ki \<Rightarrow>
                      (case value_iface r e of
                         Panic m \<Rightarrow> (Panic m, False)
                       | Return vi \<Rightarrow>
                           (case hook (case opts of None \<Rightarrow> [] | Some vo \<Rightarrow> StructField vo) ki vi of
                              (incl, err) \<Rightarrow> (Return err, incl)))))
        = hook_gate (include_map env opts) r e" for e
    by (simp add: hook_gate_def include_map_def split: option.splits)
  have body: "(\<lambda>e h.
       (case (case (case opts of None \<Rightarrow> None
                       | Some vo \<Rightarrow> (case Struct vo of None \<Rightarrow> None | Some p \<Rightarrow> IncludableMap env p)) of
                None \<Rightarrow> (Return None, True)
              | Some hook \<Rightarrow>
                  (case Value_Interface (MapElem (Value (VMap es) a r) (fst e)) of
                     Panic m \<Rightarrow> (Panic m, False)
                   | Return ki \<Rightarrow>
                      (case Interface_of (MapIndex (Value (VMap es) a r) e) of
                         Panic m \<Rightarrow> (Panic m, False)
                       | Return vi \<Rightarrow>
                           (case hook (case opts of None \<Rightarrow> [] | Some vo \<Rightarrow> StructField vo) ki vi of
                              (incl, err) \<Rightarrow> (Return err, incl))))) of
          (Panic m, _) \<Rightarrow> (Panic m, h)
        | (Return (Some err), _) \<Rightarrow> (Return (Some err), h)
        | (Return None, False) \<Rightarrow> (Return None, h)
        | (Return None, True) \<Rightarrow>
            (case Value_Interface (MapElem (Value (VMap es) a r) (fst e)) of
               Panic m \<Rightarrow> (Panic m, h)
             | Return ki \<Rightarrow>
                (case fst (Hash env ki (None :: 's HashOptions option)) of
                   Panic m \<Rightarrow> (Panic m, h)
                 | Return (kh, Some err) \<Rightarrow> (Return (Some err), h)
                 | Return (kh, None) \<Rightarrow>
                    (case Interface_of (MapIndex (Value (VMap es) a r) e) of
                       Panic m \<Rightarrow> (Panic m, h)
                     | Return vi \<Rightarrow>
                        (case fst (Hash env vi (None :: 's HashOptions option)) of
                           Panic m \<Rightarrow> (Panic m, h)
                         | Return (vh, Some err) \<Rightarrow> (Return (Some err), h)
                         | Return (vh, None) \<Rightarrow> (Return None, h XOR kh XOR vh)))))))
     = map_body (\<lambda>i. fst (Hash env i (None :: 's HashOptions option))) r (include_map env opts)"
    unfolding Interface_of_MapIndex MapElem_def Value.sel gate
    by (intro ext)
      (simp add: map_body_def sub_hash_def val_hash_def
            split: option.splits outcome.splits prod.splits bool.splits)
  show ?thesis
    apply (subst visit.simps)
    apply (simp only: Let_def head_def [symmetric] head_simps)
    apply (simp only: body)
    apply simp
    done
qed

definition is_set :: "visitOpts option \<Rightarrow> bool" where
  "is_set opts = (case opts of None \<Rightarrow> False | Some vo \<Rightarrow> Flags vo AND visitFlagSet \<noteq> 0)"

definition field_body :: "env \<Rightarrow> string \<Rightarrow> gval \<Rightarrow> bool \<Rightarrow> reflect_StructField \<times> gval \<Rightarrow> 's Hash64
    \<Rightarrow> error option outcome \<times> 's Hash64" where
  "field_body env tag p a f w =
     (if CanSet (Value_Field (Value p a False) f) \<or> Name (fst f) \<noteq> ''_'' then
        (if Tag_Get (Tag (fst f)) tag = ''ignore'' then (Return None, w)
         else
           (case (case Includable env p of
                    None \<Rightarrow> (True, None)
                  | Some hook \<Rightarrow> hook (Name (fst f)) (Value_Field (Value p a False) f)) of
              (incl, Some err) \<Rightarrow> (Return (Some err), w)
            | (False, None) \<Rightarrow> (Return None, w)
            | (True, None) \<Rightarrow>
                visit env tag w (Some (Value_Field (Value p a False) f))
                  (Some \<lparr>Flags = (if Tag_Get (Tag (fst f)) tag = ''set''
                                   then visitFlagInvalid OR visitFlagSet else visitFlagInvalid),
                         Struct = Some p, StructField = Name (fst f)\<rparr>)))
      else (Return None, w))"

lemma for_each_fst:
  "for_each (\<lambda>x wh. case f x (fst wh) of (res, w') \<Rightarrow> (res, (w', snd wh))) xs (w, h) =
     (case for_each f xs w of (res, w') \<Rightarrow> (res, (w', h)))"
proof (induction xs arbitrary: w)
  case Nil
  show ?case by simp
next
  case (Cons x xs)
  show ?case
  proof (cases "f x w")
    case (Pair res w')
    then show ?thesis using Cons.IH [of w']
      by (auto split: outcome.splits option.splits)
  qed
qed

lemma for_each_snd:
  "for_each (\<lambda>x wh. case g x (snd wh) of (res, h') \<Rightarrow> (res, (fst wh, h'))) xs (w, h) =
     (case for_each g xs h of (res, h') \<Rightarrow> (res, (w, h')))"
proof (induction xs arbitrary: h)
  case Nil
  show ?case by simp
next
  case (Cons x xs)
  show ?case
  proof (cases "g x h")
    case (Pair res h')
    then show ?thesis using Cons.IH [of h']
      by (auto split: outcome.splits option.splits)
  qed
qed

lemma visit_VSlice:
  "visit env tag w (Some (Value (VSlice xs) a r)) opts =
     (if is_set opts then
        (case for_each (set_body (\<lambda>i. fst (Hash env i (None :: 's HashOptions option))) r) xs 0 of
           (Return None, h) \<Rightarrow> binary_Write w (Some (VUint64 h))
         | (res, h) \<Rightarrow> (res, w))
      else for_each (\<lambda>x w. visit env tag w (Some (Value x True r)) None) xs (w :: 's Hash64))"
proof -
  let ?sub = "\<lambda>i. fst (Hash env i (None :: 's HashOptions option))"
  let ?v3 = "Value (VSlice xs) a r"
  have set_loop: "(\<lambda>x wh.
         (case Value_Interface (Value_Index ?v3 x) of
            Panic m \<Rightarrow> (Panic m, wh)
          | Return xi \<Rightarrow>
             (case ?sub xi of
                Panic m \<Rightarrow> (Panic m, wh)
              | Return (hc, err) \<Rightarrow> (Return err, (fst wh, snd wh XOR hc)))))
       = (\<lambda>x (wh :: 's Hash64 \<times> uint64). case set_body ?sub r x (snd wh) of (res, h') \<Rightarrow> (res, (fst wh, h')))"
    by (intro ext)
      (auto simp: set_body_def sub_hash_def Value_Index_def Value_Interface_def
            split: outcome.splits prod.splits)
  have plain_loop: "Value_Index ?v3 = (\<lambda>x. Value x True r)"
    by (intro ext) (simp add: Value_Index_def)
  show ?thesis
  proof (cases "is_set opts")
    case True
    then have flag: "(case opts of None \<Rightarrow> False | Some vo \<Rightarrow> Flags vo AND visitFlagSet \<noteq> 0) = True"
      by (simp add: is_set_def)
    show ?thesis
      apply (subst visit.simps)
      apply (simp only: Let_def head_def [symmetric] head_simps flag if_True)
      apply (simp only: set_loop for_each_snd)
      using True apply (simp split: prod.splits outcome.splits option.splits)
      done
  next
    case False
    then have flag: "(case opts of None \<Rightarrow> False | Some vo \<Rightarrow> Flags vo AND visitFlagSet \<noteq> 0) = False"
      by (simp add: is_set_def)
    show ?thesis
      apply (subst visit.simps)
      apply (simp only: Let_def head_def [symmetric] head_simps flag if_False)
      apply (simp only: plain_loop for_each_fst [of "\<lambda>x w. visit env tag w (Some (Value x True r)) None"])
      using False apply (simp split: prod.splits outcome.splits option.splits)
      done
  qed
qed

lemma visit_VStruct:
  "visit env tag w (Some (Value (VStruct tn fs) a r)) opts =
     (if r then (Panic Interface_panic, w)
      else for_each (field_body env tag (VStruct tn fs) a) fs w)"
proof (cases r)
  case True
  then show ?thesis
    by (subst visit.simps) (simp add: Let_def widen_def Value_Interface_def)
next
  case False
  let ?v3 = "Value (VStruct tn fs) a False"
  have body: "(\<lambda>f w.
        if CanSet (Value_Field ?v3 f) \<or> Name (fst f) \<noteq> ''_'' then
          (if Tag_Get (Tag (fst f)) tag = ''ignore'' then (Return None, w)
           else
             (case (case (case Some (VStruct tn fs) of None \<Rightarrow> None | Some p \<Rightarrow> Includable env p) of
                      None \<Rightarrow> (True, None)
                    | Some hook \<Rightarrow> hook (Name (fst f)) (Value_Field ?v3 f)) of
                (incl, Some err) \<Rightarrow> (Return (Some err), w)
              | (False, None) \<Rightarrow> (Return None, w)
              | (True, None) \<Rightarrow>
                  visit env tag w (Some (Value_Field ?v3 f))
                    (Some \<lparr>Flags = (if Tag_Get (Tag (fst f)) tag = ''set''
                                     then visitFlagInvalid OR visitFlagSet else visitFlagInvalid),
                           Struct = Some (VStruct tn fs), StructField = Name (fst f)\<rparr>)))
        else (Return None, w))
      = field_body env tag (VStruct tn fs) a"
    unfolding field_body_def option.case by (rule refl)
  have iface: "Value_Interface ?v3 = Return (Some (VStruct tn fs))"
    by (simp add: Value_Interface_def)
  show ?thesis
    apply (subst visit.simps)
    apply (simp only: False Let_def head_def [symmetric] head_simps iface outcome.case)
    apply (simp only: body)
    apply simp
    done
qed

subsection \<open>The entry point\<close>

definition finish :: "error option outcome \<times> 's Hash64 \<Rightarrow> (uint64 \<times> error option) outcome" where
  "finish rw =
     (case fst rw of
        Panic m \<Rightarrow> Panic m
      | Return (Some err) \<Rightarrow> Return (0, Some err)
      | Return None \<Rightarrow> Return (Sum64 (snd rw), None))"

definition tag_of :: "'s HashOptions option \<Rightarrow> string" where
  "tag_of opts = (case opts of None \<Rightarrow> ''hash'' | Some given \<Rightarrow> if TagName given = [] then ''hash'' else TagName given)"

definition hasher_of :: "'s HashOptions option \<Rightarrow> 's Hash64" where
  "hasher_of opts =
     (case opts of
        None \<Rightarrow> crc64_New (MakeTable ECMA)
      | Some given \<Rightarrow> (case Hasher given of None \<Rightarrow> crc64_New (MakeTable ECMA) | Some h \<Rightarrow> h))"

lemma hasher_defaults:
  "(let opts1 = (case opts of None \<Rightarrow> \<lparr>Hasher = None, TagName = []\<rparr> | Some given \<Rightarrow> given);
        opts2 = (if Hasher opts1 = None then opts1\<lparr>Hasher := Some (crc64_New (MakeTable ECMA))\<rparr> else opts1);
        opts3 = (if TagName opts2 = [] then opts2\<lparr>TagName := ''hash''\<rparr> else opts2)
    in f opts3) = f \<lparr>Hasher = Some (hasher_of opts), TagName = tag_of opts\<rparr>"
proof (cases opts)
  case None
  then show ?thesis by (simp add: hasher_of_def tag_of_def)
next
  case (Some given)
  then show ?thesis
    by (cases given; cases "Hasher given"; cases "TagName given = []")
      (simp_all add: hasher_of_def tag_of_def)
qed

lemma Hash_unfold:
  "Hash env v opts =
     (finish (visit env (tag_of opts) (Reset (hasher_of opts)) (ValueOf v) None),
      (case opts of
         None \<Rightarrow> None
       | Some given \<Rightarrow>
           Some \<lparr>Hasher = Some (snd (visit env (tag_of opts) (Reset (hasher_of opts)) (ValueOf v) None)),
                 TagName = tag_of opts\<rparr>))"
proof -
  obtain res w' where rw: "visit env (tag_of opts) (Reset (hasher_of opts)) (ValueOf v) None = (res, w')"
    by (cases "visit env (tag_of opts) (Reset (hasher_of opts)) (ValueOf v) None")
  have "Hash env v opts =
      (case res of
         Panic m \<Rightarrow> (Panic m, case opts of None \<Rightarrow> None | Some _ \<Rightarrow> Some \<lparr>Hasher = Some w', TagName = tag_of opts\<rparr>)
       | Return (Some err) \<Rightarrow> (Return (0, Some err), case opts of None \<Rightarrow> None | Some _ \<Rightarrow> Some \<lparr>Hasher = Some w', TagName = tag_of opts\<rparr>)
       | Return None \<Rightarrow> (Return (Sum64 w', None), case opts of None \<Rightarrow> None | Some _ \<Rightarrow> Some \<lparr>Hasher = Some w', TagName = tag_of opts\<rparr>))"
    by (subst Hash.simps, subst hasher_defaults)
      (simp add: rw Let_def split: outcome.splits option.splits)
  then show ?thesis
    using rw by (cases res) (auto simp: finish_def split: option.splits)
qed

lemma Hash_fst:
  "fst (Hash env v opts) = finish (visit env (tag_of opts) (Reset (hasher_of opts)) (ValueOf v) None)"
  by (simp add: Hash_unfold)

lemma Hash_snd:
  "snd (Hash env v opts) =
     (case opts of
        None \<Rightarrow> None
      | Some given \<Rightarrow>
          Some \<lparr>Hasher = Some (snd (visit env (tag_of opts) (Reset (hasher_of opts)) (ValueOf v) None)),
                TagName = tag_of opts\<rparr>)"
  by (simp add: Hash_unfold)

subsection \<open>Evaluating the CRC on concrete bytes\<close>

text \<open>
  The table entry of a byte, computed on 64 bits, and one step of \<^verbatim>\<open>update\<close>; with these
  \<open>update\<close> on a list of numerals is evaluated by rewriting.
\<close>

definition table_step :: "uint64 \<Rightarrow> uint64" where
  "table_step crc = (if crc AND 1 = 1 then drop_bit 1 crc XOR 0xC96C5795D7870F42 else drop_bit 1 crc)"

definition tab64 :: "uint64 \<Rightarrow> uint64" where
  "tab64 i = table_step (table_step (table_step (table_step (table_step (table_step (table_step (table_step i)))))))"

definition crc_step :: "byte \<Rightarrow> uint64 \<Rightarrow> uint64" where
  "crc_step v crc = tab64 ((crc XOR ucast v) AND 0xFF) XOR drop_bit 8 crc"

lemma not64: "NOT (x::uint64) = x XOR 0xFFFFFFFFFFFFFFFF"
proof -
  have "(0xFFFFFFFFFFFFFFFF :: uint64) = -1" by simp
  then show ?thesis by (simp only: bit.xor_one_right)
qed

lemma funpow8: "(f ^^ 8) x = f (f (f (f (f (f (f (f x)))))))"
  by (simp add: eval_nat_numeral)

lemma MakeTable_tab64: "MakeTable ECMA (ucast crc XOR v) = tab64 ((crc XOR ucast v) AND 0xFF)"
proof -
  have m: "(0xFF::uint64) = mask 8" by (simp add: mask_eq_exp_minus_1)
  have "(ucast (ucast crc XOR v :: byte) :: uint64) = (crc XOR ucast v) AND mask 8"
    by (rule bit_word_eqI) (auto simp: bit_simps dest: bit_imp_le_length)
  then show ?thesis
    by (simp add: MakeTable_def funpow8 tab64_def m table_step_def [abs_def] ECMA_def)
qed

lemma update_eval:
  "update crc (MakeTable ECMA) p = fold crc_step p (crc XOR 0xFFFFFFFFFFFFFFFF) XOR 0xFFFFFFFFFFFFFFFF"
proof -
  have "(\<lambda>v crc. MakeTable ECMA (ucast crc XOR v) XOR drop_bit 8 crc) = crc_step"
    by (intro ext) (simp add: crc_step_def MakeTable_tab64)
  then show ?thesis by (simp add: update_def not64)
qed

lemmas crc_eval = update_eval crc_step_def tab64_def table_step_def

lemma le_bytes_eval:
  "le_bytes (Suc 0) x = [ucast x]"
  "le_bytes 8 x = [ucast x, ucast (drop_bit 8 x), ucast (drop_bit 16 x), ucast (drop_bit 24 x),
     ucast (drop_bit 32 x), ucast (drop_bit 40 x), ucast (drop_bit 48 x), ucast (drop_bit 56 x)]"
  by (simp_all add: le_bytes_def upt_rec)

definition env0 :: env where
  "env0 = \<lparr>MapOrder = (\<lambda>_ _. 0), Includable = (\<lambda>_. None), IncludableMap = (\<lambda>_. None)\<rparr>"

lemmas visit_eqs = visit_nil visit_indirect visit_widened visit_numeric visit_unknown
  visit_VString visit_VArray visit_VMap visit_VSlice visit_VStruct

text \<open>
  Evaluating \<open>Hash\<close> on a concrete value goes in two steps: \<open>hash_struct\<close> unfolds the
  traversal down to the bytes written, then \<open>crc_bytes\<close> computes the CRC of these bytes.
\<close>

lemmas hash_struct = Hash_fst finish_def tag_of_def hasher_of_def crc64_New_def ValueOf_def visit_eqs
  write_numeric_def binary_Write_def map_body_def hook_gate_def set_body_def sub_hash_def
  val_hash_def value_iface_def Value_Interface_def include_map_def MapKeys_def env0_def str_def

lemmas crc_bytes = le_bytes_eval crc_eval

text \<open>For values with records, \<open>hash_record\<close> is added to the first step.\<close>

lemmas hash_record = field_body_def CanSet_def Value_Field_def Tag_Get_def Interface_panic_def

text \<open>
  A map with a key that is not equal to itself, \<^verbatim>\<open>map[float64]int{math.NaN(): 1}\<close>: the key
  is enumerated and hashed, the lookup of its value finds nothing, and \<^verbatim>\<open>Interface\<close>
  panics on the zero \<^verbatim>\<open>Value\<close>.
\<close>

lemma Hash_NaN_key:
  "fst (Hash env0 (Some (VMap [(VFloat64 0x7FF8000000000001, VInt 1)])) (None :: unit HashOptions option))
     = Panic zero_Value_panic"
  by (simp add: hash_struct isNaN64_def)


section \<open>Order-independent totals\<close>

definition xor_sum :: "uint64 list \<Rightarrow> uint64" where
  "xor_sum xs = fold (XOR) xs 0"

lemma fold_xor: "fold (XOR) xs (h :: uint64) = h XOR fold (XOR) xs 0"
proof (induction xs arbitrary: h)
  case Nil
  show ?case by simp
next
  case (Cons x xs)
  from Cons [of "x XOR h"] Cons [of "x XOR 0"] show ?case
    by (simp add: ac_simps)
qed

lemma xor_sum_simps [simp]:
  "xor_sum [] = 0"
  "xor_sum (x # xs) = x XOR xor_sum xs"
  using fold_xor [of xs x] by (simp_all add: xor_sum_def)

lemma xor_sum_mset: "mset xs = mset ys \<Longrightarrow> xor_sum xs = xor_sum ys"
  unfolding xor_sum_def
  by (rule arg_cong [where f = "\<lambda>f. f 0"], rule fold_multiset_equiv) (auto simp: fun_eq_iff ac_simps)

lemma xor_sum_append [simp]: "xor_sum (xs @ ys) = xor_sum xs XOR xor_sum ys"
  by (induction xs) (simp_all add: ac_simps)

text \<open>
  A loop whose body adds (XOR) a contribution \<open>d x\<close> to the running total and returns
  \<open>res x\<close>, neither depending on the total.
\<close>

lemma for_each_total:
  "\<forall>x \<in> set xs. \<forall>h. body x h = (res x, h XOR d x) \<Longrightarrow>
   for_each body xs h =
     (if \<forall>x \<in> set xs. res x = Return None then (Return None, h XOR xor_sum (map d xs))
      else (res (hd (filter (\<lambda>x. res x \<noteq> Return None) xs)),
            h XOR xor_sum (map d (takeWhile (\<lambda>x. res x = Return None) xs))
              XOR d (hd (filter (\<lambda>x. res x \<noteq> Return None) xs))))"
proof (induction xs arbitrary: h)
  case Nil
  show ?case by simp
next
  case (Cons x xs)
  have step: "body x h = (res x, h XOR d x)" using Cons.prems by simp
  have rest: "\<forall>y \<in> set xs. \<forall>h. body y h = (res y, h XOR d y)" using Cons.prems by simp
  show ?case
  proof (cases "res x = Return None")
    case True
    then show ?thesis using Cons.IH [OF rest, of "h XOR d x"] step
      by (simp add: ac_simps)
  next
    case False
    then show ?thesis using step
      by (cases "res x" rule: outcome.exhaust) (auto split: option.splits)
  qed
qed

lemma first_failure:
  "\<not> (\<forall>x \<in> set xs. res x = Return None) \<Longrightarrow>
   hd (filter (\<lambda>x. res x \<noteq> Return None) xs) \<in> set xs \<and>
   res (hd (filter (\<lambda>x. res x \<noteq> Return None) xs)) \<noteq> Return None"
proof -
  assume "\<not> (\<forall>x \<in> set xs. res x = Return None)"
  then have "filter (\<lambda>x. res x \<noteq> Return None) xs \<noteq> []"
    by (auto simp: filter_empty_conv)
  then have "hd (filter (\<lambda>x. res x \<noteq> Return None) xs) \<in> set (filter (\<lambda>x. res x \<noteq> Return None) xs)"
    by (rule hd_in_set)
  then show ?thesis by simp
qed

lemma for_each_total_ok:
  assumes "\<forall>x \<in> set xs. \<forall>h :: uint64. body x h = (res x, h XOR d x)"
  shows "fst (for_each body xs h) = Return None \<longleftrightarrow> (\<forall>x \<in> set xs. res x = Return None)"
proof (cases "\<forall>x \<in> set xs. res x = Return None")
  case True
  with for_each_total [OF assms, of h] show ?thesis by simp
next
  case False
  with for_each_total [OF assms, of h] first_failure [OF False] show ?thesis by simp
qed


section \<open>Results that agree\<close>

text \<open>
  Two calls of \<open>Hash\<close> agree when both succeed with the same digest or both fail. A call
  fails when it panics or returns an error, and then its digest is zero. Which error a
  failing call reports, and whether it panics, may depend on the order in which a map is
  listed (the first entry that fails decides); so this, and not equality, is what holds
  across orders. Whenever both calls return, their digests are equal.
\<close>

definition failed :: "(uint64 \<times> error option) outcome \<Rightarrow> bool" where
  "failed res = (case res of Return (h, None) \<Rightarrow> False | Return (h, Some err) \<Rightarrow> h = 0 | Panic m \<Rightarrow> True)"

definition agree :: "(uint64 \<times> error option) outcome \<Rightarrow> (uint64 \<times> error option) outcome \<Rightarrow> bool" where
  "agree res1 res2 =
     (case res1 of
        Return (h, None) \<Rightarrow> res2 = Return (h, None)
      | _ \<Rightarrow> failed res1 \<and> failed res2)"

definition digest_of :: "(uint64 \<times> error option) outcome \<Rightarrow> uint64" where
  "digest_of res = (case res of Return (h, err) \<Rightarrow> h | Panic m \<Rightarrow> 0)"

definition succeeded :: "(uint64 \<times> error option) outcome \<Rightarrow> bool" where
  "succeeded res = (case res of Return (h, None) \<Rightarrow> True | _ \<Rightarrow> False)"

text \<open>The same for two calls of \<open>visit\<close>, or two runs of a loop: both return no error
  and leave the same state (the accumulator, the running total), or both fail.\<close>

definition vagree :: "error option outcome \<times> 'b \<Rightarrow> error option outcome \<times> 'b \<Rightarrow> bool" where
  "vagree rw1 rw2 = (if fst rw1 = Return None then rw2 = rw1 else fst rw2 \<noteq> Return None)"

lemma agree_returned: "agree (Return (h1, e1)) (Return (h2, e2)) \<Longrightarrow> h1 = h2"
  by (cases e1; cases e2) (auto simp: agree_def failed_def)

lemma agree_refl [simp]: "failed res \<or> succeeded res \<Longrightarrow> agree res res"
  by (cases res rule: outcome.exhaust)
    (auto simp: agree_def failed_def succeeded_def split: option.splits)

lemma finish_failed: "fst rw \<noteq> Return None \<Longrightarrow> failed (finish rw)"
  by (cases "fst rw" rule: outcome.exhaust) (auto simp: finish_def failed_def split: option.splits)

lemma finish_succeeded: "fst rw = Return None \<Longrightarrow> finish rw = Return (Sum64 (snd rw), None)"
  by (simp add: finish_def)

lemma vagree_finish: "vagree rw1 rw2 \<Longrightarrow> agree (finish rw1) (finish rw2)"
proof (cases "fst rw1 = Return None")
  case True
  assume "vagree rw1 rw2"
  with True have "rw2 = rw1" by (simp add: vagree_def)
  with True show ?thesis by (simp add: finish_succeeded agree_def)
next
  case False
  assume "vagree rw1 rw2"
  with False have "fst rw2 \<noteq> Return None" by (simp add: vagree_def)
  with False finish_failed [of rw1] finish_failed [of rw2] show ?thesis
    by (cases "finish rw1" rule: outcome.exhaust)
      (auto simp: agree_def failed_def split: option.splits)
qed

lemma Hash_agree:
  "vagree (visit env1 (tag_of opts1) (Reset (hasher_of opts1)) (ValueOf v1) None)
          (visit env2 (tag_of opts2) (Reset (hasher_of opts2)) (ValueOf v2) None)
   \<Longrightarrow> agree (fst (Hash env1 v1 opts1)) (fst (Hash env2 v2 opts2))"
  by (simp add: Hash_fst vagree_finish)

section \<open>The total of a map\<close>

lemma map_body_total:
  "map_body sub r inc e h = (fst (map_body sub r inc e 0), h XOR snd (map_body sub r inc e 0))"
  unfolding map_body_def
  by (simp split: option.splits outcome.splits prod.splits bool.splits)

lemma val_hash_sub_hash:
  "val_hash sub r e = (if key_equal_itself (fst e) then sub_hash sub r (snd e) else Panic zero_Value_panic)"
  by (simp add: val_hash_def value_iface_def sub_hash_def)

lemma set_body_total:
  "set_body sub r x h = (fst (set_body sub r x 0), h XOR snd (set_body sub r x 0))"
  unfolding set_body_def
  by (simp split: option.splits outcome.splits prod.splits)

lemma total_perm:
  assumes "\<forall>x \<in> set xs. \<forall>h :: uint64. body x h = (res x, h XOR d x)" and "mset xs = mset ys"
  shows "(if fst (for_each body xs 0) = Return None then for_each body ys 0 = for_each body xs 0
          else fst (for_each body ys 0) \<noteq> Return None)"
proof -
  have sets: "set ys = set xs" using assms(2) by (metis mset_eq_setD)
  have ys: "\<forall>x \<in> set ys. \<forall>h :: uint64. body x h = (res x, h XOR d x)"
    using assms(1) sets by simp
  have "mset (map d xs) = mset (map d ys)" using assms(2) by simp
  then have sum: "xor_sum (map d ys) = xor_sum (map d xs)" by (metis xor_sum_mset)
  show ?thesis
  proof (cases "\<forall>x \<in> set xs. res x = Return None")
    case True
    then show ?thesis
      by (simp add: for_each_total [OF assms(1)] for_each_total [OF ys] sets sum)
  next
    case False
    then show ?thesis
      using for_each_total_ok [OF assms(1), of 0] for_each_total_ok [OF ys, of 0] sets by auto
  qed
qed

lemma map_loop_perm:
  "mset es = mset es' \<Longrightarrow>
   (if fst (for_each (map_body sub r inc) es 0) = Return None
    then for_each (map_body sub r inc) es' 0 = for_each (map_body sub r inc) es 0
    else fst (for_each (map_body sub r inc) es' 0) \<noteq> Return None)"
  by (rule total_perm [where res = "\<lambda>e. fst (map_body sub r inc e 0)" and d = "\<lambda>e. snd (map_body sub r inc e 0)"])
    (simp_all add: map_body_total [symmetric])

lemma visit_map_perm:
  assumes "mset es = mset es'"
  shows "vagree (visit env tag w (Some (Value (VMap es) a r)) opts)
                (visit env tag w (Some (Value (VMap es') a r)) opts)"
proof -
  let ?sub = "\<lambda>i. fst (Hash env i (None :: 'a HashOptions option))"
  have "mset (MapKeys env es) = mset (MapKeys env es')" using assms by simp
  from map_loop_perm [OF this, of ?sub r "include_map env opts"]
  show ?thesis
    by (cases "for_each (map_body ?sub r (include_map env opts)) (MapKeys env es) 0";
        cases "for_each (map_body ?sub r (include_map env opts)) (MapKeys env es') 0")
      (auto simp: visit_VMap vagree_def split: outcome.splits option.splits if_splits)
qed


definition iface_of :: "gval \<Rightarrow> gval option" where
  "iface_of x = (case x of VInterface i \<Rightarrow> i | _ \<Rightarrow> Some x)"

lemma sub_hash_exported: "sub_hash sub False x = sub (iface_of x)"
  by (cases x) (simp_all add: sub_hash_def Value_Interface_def iface_of_def)

lemma sub_hash_unexported: "sub_hash sub True x = Panic Interface_panic"
  by (simp add: sub_hash_def Value_Interface_def)

lemma outcome_cases:
  obtains (ok) h where "res = Return (h, None)"
        | (err) h e where "res = Return (h, Some e)"
        | (panic) m where "res = Panic m"
  by (cases res rule: outcome.exhaust) (auto, metis not_Some_eq)

lemma xor_sum_pairs:
  "xor_sum (map (\<lambda>e. f (fst e) XOR g (snd e)) es) = xor_sum (map f (map fst es)) XOR xor_sum (map g (map snd es))"
  by (induction es) (simp_all add: ac_simps)

lemma xor_sum_filter:
  "xor_sum (map (\<lambda>e. if P e then f e else 0) es) = xor_sum (map f (filter P es))"
  by (induction es) simp_all

lemma succeeded_finish: "succeeded (finish rw) \<longleftrightarrow> fst rw = Return None"
  by (cases "fst rw" rule: outcome.exhaust) (auto simp: finish_def succeeded_def split: option.splits)

lemma include_map_None [simp]: "include_map env None = None"
  by (simp add: include_map_def)

lemma visit_map_ok:
  "fst (visit env tag w (Some (Value (VMap es) a r)) opts) = Return None \<Longrightarrow>
   fst (for_each (map_body (\<lambda>i. fst (Hash env i (None :: 'a HashOptions option))) r (include_map env opts))
          (MapKeys env es) 0) = Return None"
  for w :: "'a Hash64"
  by (cases "for_each (map_body (\<lambda>i. fst (Hash env i (None :: 'a HashOptions option))) r (include_map env opts))
          (MapKeys env es) 0")
    (auto simp: visit_VMap split: outcome.splits option.splits)


text \<open>The entries of a map that the \<^verbatim>\<open>IncludableMap\<close> hook of the owning record, if there is
  one, keeps.\<close>

definition retained :: "env \<Rightarrow> visitOpts option \<Rightarrow> bool \<Rightarrow> (gval \<times> gval) list \<Rightarrow> (gval \<times> gval) list" where
  "retained env opts r es = filter (\<lambda>e. snd (hook_gate (include_map env opts) r e)) es"

lemma map_body_ok:
  "fst (map_body sub r inc e h) = Return None \<longleftrightarrow>
     fst (hook_gate inc r e) = Return None \<and>
     (snd (hook_gate inc r e) \<longrightarrow>
        \<not> r \<and> key_equal_itself (fst e) \<and> succeeded (sub (iface_of (fst e))) \<and> succeeded (sub (iface_of (snd e))))"
proof -
  obtain res incl where g: "hook_gate inc r e = (res, incl)" by (cases "hook_gate inc r e")
  show ?thesis
    unfolding map_body_def g
  proof (cases r)
    case True
    then show "fst (case (res, incl) of
          (Panic m, _) \<Rightarrow> (Panic m, h)
        | (Return (Some err), _) \<Rightarrow> (Return (Some err), h)
        | (Return None, False) \<Rightarrow> (Return None, h)
        | (Return None, True) \<Rightarrow>
            (case sub_hash sub r (fst e) of
               Panic m \<Rightarrow> (Panic m, h)
             | Return (kh, Some err) \<Rightarrow> (Return (Some err), h)
             | Return (kh, None) \<Rightarrow>
                (case val_hash sub r e of
                   Panic m \<Rightarrow> (Panic m, h)
                 | Return (vh, Some err) \<Rightarrow> (Return (Some err), h)
                 | Return (vh, None) \<Rightarrow> (Return None, h XOR kh XOR vh)))) = Return None \<longleftrightarrow>
     fst (res, incl) = Return None \<and>
     (snd (res, incl) \<longrightarrow>
        \<not> r \<and> key_equal_itself (fst e) \<and> succeeded (sub (iface_of (fst e))) \<and> succeeded (sub (iface_of (snd e))))"
      by (cases res rule: outcome.exhaust; cases incl)
        (auto simp: sub_hash_unexported split: option.splits)
  next
    case False
    then show "fst (case (res, incl) of
          (Panic m, _) \<Rightarrow> (Panic m, h)
        | (Return (Some err), _) \<Rightarrow> (Return (Some err), h)
        | (Return None, False) \<Rightarrow> (Return None, h)
        | (Return None, True) \<Rightarrow>
            (case sub_hash sub r (fst e) of
               Panic m \<Rightarrow> (Panic m, h)
             | Return (kh, Some err) \<Rightarrow> (Return (Some err), h)
             | Return (kh, None) \<Rightarrow>
                (case val_hash sub r e of
                   Panic m \<Rightarrow> (Panic m, h)
                 | Return (vh, Some err) \<Rightarrow> (Return (Some err), h)
                 | Return (vh, None) \<Rightarrow> (Return None, h XOR kh XOR vh)))) = Return None \<longleftrightarrow>
     fst (res, incl) = Return None \<and>
     (snd (res, incl) \<longrightarrow>
        \<not> r \<and> key_equal_itself (fst e) \<and> succeeded (sub (iface_of (fst e))) \<and> succeeded (sub (iface_of (snd e))))"
      by (cases res rule: outcome.exhaust; cases incl;
          cases "sub (iface_of (fst e))" rule: outcome_cases;
          cases "sub (iface_of (snd e))" rule: outcome_cases)
        (auto simp: val_hash_sub_hash sub_hash_exported succeeded_def split: option.splits)
  qed
qed

lemma map_body_digest:
  assumes "fst (map_body sub r inc e 0) = Return None"
  shows "snd (map_body sub r inc e 0) =
     (if snd (hook_gate inc r e)
      then digest_of (sub (iface_of (fst e))) XOR digest_of (sub (iface_of (snd e))) else 0)"
proof -
  obtain res incl where g: "hook_gate inc r e = (res, incl)" by (cases "hook_gate inc r e")
  from assms [unfolded map_body_ok] g have r: "res = Return None"
    and ok: "incl \<Longrightarrow> \<not> r \<and> key_equal_itself (fst e) \<and> succeeded (sub (iface_of (fst e))) \<and> succeeded (sub (iface_of (snd e)))"
    by simp_all
  show ?thesis
  proof (cases incl)
    case False
    then show ?thesis by (simp add: map_body_def g r)
  next
    case True
    with ok have nr: "r = False" by simp
    from g have g': "hook_gate inc False e = (Return None, True)" by (simp add: nr r True)
    from ok True show ?thesis
      by (cases "sub (iface_of (fst e))" rule: outcome_cases;
          cases "sub (iface_of (snd e))" rule: outcome_cases)
        (simp_all add: map_body_def g' nr val_hash_sub_hash sub_hash_exported succeeded_def digest_of_def)
  qed
qed

lemma map_loop_ok:
  "fst (for_each (map_body sub r inc) es 0) = Return None \<longleftrightarrow>
     (\<forall>e \<in> set es. fst (map_body sub r inc e 0) = Return None)"
  using for_each_total_ok [of es "map_body sub r inc"
      "\<lambda>e. fst (map_body sub r inc e 0)" "\<lambda>e. snd (map_body sub r inc e 0)" 0]
  by (simp add: map_body_total [symmetric])

lemma map_loop_total:
  assumes "fst (for_each (map_body sub r inc) es 0) = Return None"
  shows "for_each (map_body sub r inc) es 0 =
     (Return None,
      xor_sum (map (\<lambda>x. digest_of (sub (iface_of x))) (map fst (filter (\<lambda>e. snd (hook_gate inc r e)) es))) XOR
      xor_sum (map (\<lambda>x. digest_of (sub (iface_of x))) (map snd (filter (\<lambda>e. snd (hook_gate inc r e)) es))))"
proof -
  let ?dg = "\<lambda>x. digest_of (sub (iface_of x))"
  let ?P = "\<lambda>e. snd (hook_gate inc r e)"
  let ?d = "\<lambda>e. if ?P e then ?dg (fst e) XOR ?dg (snd e) else 0"
  from assms have ok: "\<forall>e \<in> set es. fst (map_body sub r inc e 0) = Return None"
    by (simp add: map_loop_ok)
  have "\<forall>e \<in> set es. \<forall>h. map_body sub r inc e h = (Return None, h XOR ?d e)"
  proof (intro ballI allI)
    fix e h assume e: "e \<in> set es"
    with ok have 1: "fst (map_body sub r inc e 0) = Return None" by simp
    from map_body_total [of sub r inc e h] 1 map_body_digest [OF 1]
    show "map_body sub r inc e h = (Return None, h XOR ?d e)" by simp
  qed
  from for_each_total [OF this, of 0]
  have "for_each (map_body sub r inc) es 0 = (Return None, xor_sum (map ?d es))" by simp
  also have "xor_sum (map ?d es) = xor_sum (map (\<lambda>e. ?dg (fst e) XOR ?dg (snd e)) (filter ?P es))"
    by (rule xor_sum_filter)
  finally show ?thesis by (simp only: xor_sum_pairs [of ?dg ?dg])
qed

lemma exchange_values:
  assumes "mset (map fst es) = mset (map fst es')" and "mset (map snd es) = mset (map snd es')"
  shows "(if fst (for_each (map_body sub r None) es 0) = Return None
          then for_each (map_body sub r None) es' 0 = for_each (map_body sub r None) es 0
          else fst (for_each (map_body sub r None) es' 0) \<noteq> Return None)"
proof -
  let ?okk = "\<lambda>x. \<not> r \<and> key_equal_itself x \<and> succeeded (sub (iface_of x))"
  let ?okv = "\<lambda>x. succeeded (sub (iface_of x))"
  let ?dg = "\<lambda>x. digest_of (sub (iface_of x))"
  have gate [simp]: "hook_gate None r e = (Return None, True)" for e
    by (simp add: hook_gate_def)
  have loop_ok: "fst (for_each (map_body sub r None) xs 0) = Return None \<longleftrightarrow>
      (\<forall>k \<in> set (map fst xs). ?okk k) \<and> (\<forall>v \<in> set (map snd xs). ?okv v)" for xs
    by (auto simp: map_loop_ok map_body_ok)
  have sets: "set (map fst es) = set (map fst es')" "set (map snd es) = set (map snd es')"
    using assms by (metis mset_eq_setD)+
  have "mset (map ?dg (map fst es)) = mset (map ?dg (map fst es'))"
       "mset (map ?dg (map snd es)) = mset (map ?dg (map snd es'))"
    using assms by (metis mset_map)+
  then have sums: "xor_sum (map ?dg (map fst es)) = xor_sum (map ?dg (map fst es'))"
       "xor_sum (map ?dg (map snd es)) = xor_sum (map ?dg (map snd es'))"
    by (metis xor_sum_mset)+
  show ?thesis
  proof (cases "fst (for_each (map_body sub r None) es 0) = Return None")
    case True
    then have "fst (for_each (map_body sub r None) es' 0) = Return None"
      unfolding loop_ok sets .
    from map_loop_total [OF this] map_loop_total [OF True] True sums show ?thesis
      by simp
  next
    case False
    then have "fst (for_each (map_body sub r None) es' 0) \<noteq> Return None"
      unfolding loop_ok sets .
    with False show ?thesis by simp
  qed
qed

lemma visit_map_exchange:
  fixes w :: "'s Hash64"
  assumes "mset (map fst es) = mset (map fst es')" and "mset (map snd es) = mset (map snd es')"
    and "include_map env opts = None"
  shows "vagree (visit env tag w (Some (Value (VMap es) a r)) opts)
                (visit env tag w (Some (Value (VMap es') a r)) opts)"
proof -
  let ?sub = "\<lambda>i. fst (Hash env i (None :: 's HashOptions option))"
  have keys: "mset (map fst (MapKeys env es)) = mset (map fst (MapKeys env es'))"
    using assms(1) by (metis mset_MapKeys mset_map)
  have vals: "mset (map snd (MapKeys env es)) = mset (map snd (MapKeys env es'))"
    using assms(2) by (metis mset_MapKeys mset_map)
  from exchange_values [OF keys vals, of ?sub r]
  show ?thesis
    by (cases "for_each (map_body ?sub r None) (MapKeys env es) 0";
        cases "for_each (map_body ?sub r None) (MapKeys env es') 0")
      (auto simp: visit_VMap assms(3) vagree_def split: outcome.splits option.splits if_splits)
qed

lemma xor_sum_retained:
  "xor_sum (map f (map g (filter P (MapKeys env es)))) = xor_sum (map f (map g (filter P es)))"
  by (rule xor_sum_mset) simp

lemma visit_map_total:
  fixes w :: "'s Hash64"
  assumes "fst (visit env tag w (Some (Value (VMap es) a r)) opts) = Return None"
  shows "visit env tag w (Some (Value (VMap es) a r)) opts =
     binary_Write w (Some (VUint64
       (xor_sum (map (\<lambda>x. digest_of (fst (Hash env (iface_of x) (None :: 's HashOptions option)))) (map fst (retained env opts r es)))
        XOR
        xor_sum (map (\<lambda>x. digest_of (fst (Hash env (iface_of x) (None :: 's HashOptions option)))) (map snd (retained env opts r es))))))"
  unfolding retained_def
  by (subst visit_VMap, subst map_loop_total [OF visit_map_ok [OF assms]])
    (simp only: xor_sum_retained prod.case outcome.case option.case)

section \<open>Induction over values\<close>

fun leaf :: "gval \<Rightarrow> bool" where
  "leaf (VArray xs) = False"
| "leaf (VSlice xs) = False"
| "leaf (VMap es) = False"
| "leaf (VStruct tn fs) = False"
| "leaf (VPtr (Some x)) = False"
| "leaf (VInterface (Some x)) = False"
| "leaf x = True"

lemma gval_induct [case_names leaf ptr iface array slice map struct]:
  assumes "\<And>x. leaf x \<Longrightarrow> P x"
    and "\<And>x. P x \<Longrightarrow> P (VPtr (Some x))"
    and "\<And>x. P x \<Longrightarrow> P (VInterface (Some x))"
    and "\<And>xs. (\<And>x. x \<in> set xs \<Longrightarrow> P x) \<Longrightarrow> P (VArray xs)"
    and "\<And>xs. (\<And>x. x \<in> set xs \<Longrightarrow> P x) \<Longrightarrow> P (VSlice xs)"
    and "\<And>es. (\<And>e. e \<in> set es \<Longrightarrow> P (fst e) \<and> P (snd e)) \<Longrightarrow> P (VMap es)"
    and "\<And>tn fs. (\<And>f. f \<in> set fs \<Longrightarrow> P (snd f)) \<Longrightarrow> P (VStruct tn fs)"
  shows "P x"
proof (induction x rule: gval.induct)
  case (VInterface i)
  then show ?case using assms(1,3) by (cases i) auto
next
  case (VPtr p)
  then show ?case using assms(1,2) by (cases p) auto
next
  case (VMap es)
  show ?case
  proof (rule assms(6))
    fix e assume "e \<in> set es"
    with VMap show "P (fst e) \<and> P (snd e)" by (cases e) auto
  qed
next
  case (VStruct tn fs)
  show ?case
  proof (rule assms(7))
    fix f assume "f \<in> set fs"
    with VStruct show "P (snd f)" by (cases f) auto
  qed
qed (auto intro: assms)

lemma size_child:
  "x \<in> set xs \<Longrightarrow> size x < size (VArray xs)"
  "x \<in> set xs \<Longrightarrow> size x < size (VSlice xs)"
  "e \<in> set es \<Longrightarrow> size (fst e) < size (VMap es)"
  "e \<in> set es \<Longrightarrow> size (snd e) < size (VMap es)"
  "f \<in> set fs \<Longrightarrow> size (snd f) < size (VStruct tn fs)"
proof -
  show "x \<in> set xs \<Longrightarrow> size x < size (VArray xs)"
    using size_list_estimation' [of x xs "size x" size] by simp
  show "x \<in> set xs \<Longrightarrow> size x < size (VSlice xs)"
    using size_list_estimation' [of x xs "size x" size] by simp
  show "e \<in> set es \<Longrightarrow> size (fst e) < size (VMap es)"
    using size_list_estimation' [of e es "size (fst e) + size (snd e)" "size_prod size size"]
    by (cases e) simp
  show "e \<in> set es \<Longrightarrow> size (snd e) < size (VMap es)"
    using size_list_estimation' [of e es "size (fst e) + size (snd e)" "size_prod size size"]
    by (cases e) simp
  show "f \<in> set fs \<Longrightarrow> size (snd f) < size (VStruct tn fs)"
    using size_list_estimation' [of f fs "size (snd f)" "size_prod (\<lambda>_. 0) size"]
    by (cases f) simp
qed


section \<open>Two environments\<close>

lemma vagree_refl [simp]: "vagree rw rw"
  by (simp add: vagree_def)

lemma for_each_vagree:
  "\<forall>x \<in> set xs. \<forall>s. vagree (f x s) (g x s) \<Longrightarrow> vagree (for_each f xs s) (for_each g xs s)"
proof (induction xs arbitrary: s)
  case Nil
  show ?case by simp
next
  case (Cons x xs)
  have head: "vagree (f x s) (g x s)" using Cons.prems by simp
  have rest: "\<forall>y \<in> set xs. \<forall>s. vagree (f y s) (g y s)" using Cons.prems by simp
  show ?case
  proof (cases "fst (f x s) = Return None")
    case True
    with head have same: "g x s = f x s" by (simp add: vagree_def)
    obtain s' where "f x s = (Return None, s')" using True by (cases "f x s") auto
    with same Cons.IH [OF rest, of s'] show ?thesis by simp
  next
    case False
    with head have "fst (g x s) \<noteq> Return None" by (simp add: vagree_def)
    with False show ?thesis
      by (cases "f x s"; cases "g x s")
        (auto simp: vagree_def split: outcome.splits option.splits)
  qed
qed

text \<open>Loops that keep a running total, over two listings of the same elements.\<close>

lemma total_vagree:
  assumes b1: "\<forall>x \<in> set xs. \<forall>h :: uint64. b1 x h = (res1 x, h XOR d1 x)"
    and b2: "\<forall>x \<in> set xs. \<forall>h :: uint64. b2 x h = (res2 x, h XOR d2 x)"
    and each: "\<forall>x \<in> set xs. vagree (res1 x, d1 x) (res2 x, d2 x)"
    and perm: "mset xs = mset ys"
  shows "vagree (for_each b1 xs 0) (for_each b2 ys 0)"
proof -
  have sets: "set ys = set xs" using perm by (metis mset_eq_setD)
  have b2': "\<forall>x \<in> set ys. \<forall>h :: uint64. b2 x h = (res2 x, h XOR d2 x)"
    unfolding sets by (rule b2)
  have ok_iff: "(\<forall>x \<in> set xs. res1 x = Return None) \<longleftrightarrow> (\<forall>x \<in> set ys. res2 x = Return None)"
    using each unfolding sets by (auto simp: vagree_def split: if_splits)
  show ?thesis
  proof (cases "\<forall>x \<in> set xs. res1 x = Return None")
    case True
    then have same: "\<forall>x \<in> set xs. d2 x = d1 x"
      using each by (auto simp: vagree_def)
    then have "map d2 xs = map d1 xs" by simp
    moreover have "mset (map d2 ys) = mset (map d2 xs)"
      using perm by simp
    ultimately have "xor_sum (map d2 ys) = xor_sum (map d1 xs)"
      by (metis xor_sum_mset)
    with True ok_iff show ?thesis
      by (simp add: for_each_total [OF b1] for_each_total [OF b2'] vagree_def)
  next
    case False
    with ok_iff for_each_total_ok [OF b1, of 0] for_each_total_ok [OF b2', of 0]
    show ?thesis by (simp add: vagree_def)
  qed
qed

lemma map_body_gate:
  "map_body sub r inc e h =
     (if hook_gate inc r e = (Return None, True) then
        (case sub_hash sub r (fst e) of
           Panic m \<Rightarrow> (Panic m, h)
         | Return (kh, Some err) \<Rightarrow> (Return (Some err), h)
         | Return (kh, None) \<Rightarrow>
            (case val_hash sub r e of
               Panic m \<Rightarrow> (Panic m, h)
             | Return (vh, Some err) \<Rightarrow> (Return (Some err), h)
             | Return (vh, None) \<Rightarrow> (Return None, h XOR kh XOR vh)))
      else (fst (hook_gate inc r e), h))"
proof -
  obtain res incl where g: "hook_gate inc r e = (res, incl)" by (cases "hook_gate inc r e")
  show ?thesis
    unfolding map_body_def g
    by (cases res rule: outcome.exhaust; cases incl) (auto split: option.splits)
qed

lemma map_body_vagree:
  assumes "agree (sub_hash sub1 r (fst e)) (sub_hash sub2 r (fst e))"
    and "agree (val_hash sub1 r e) (val_hash sub2 r e)"
  shows "vagree (map_body sub1 r inc e h) (map_body sub2 r inc e h)"
proof (cases "hook_gate inc r e = (Return None, True)")
  case False
  then show ?thesis by (simp add: map_body_gate)
next
  case True
  show ?thesis
  proof (cases "sub_hash sub1 r (fst e)" rule: outcome_cases)
    case (ok kh)
    with assms(1) have k2: "sub_hash sub2 r (fst e) = Return (kh, None)" by (simp add: agree_def)
    show ?thesis
    proof (cases "val_hash sub1 r e" rule: outcome_cases)
      case (ok vh)
      with assms(2) have "val_hash sub2 r e = Return (vh, None)" by (simp add: agree_def)
      with ok \<open>sub_hash sub1 r (fst e) = Return (kh, None)\<close> k2 True show ?thesis
        by (simp add: map_body_gate)
    next
      case (err vh e1)
      with assms(2) have "failed (val_hash sub2 r e)" by (simp add: agree_def)
      then have "fst (map_body sub2 r inc e h) \<noteq> Return None"
        using True k2
        by (cases "val_hash sub2 r e" rule: outcome_cases)
          (simp_all add: map_body_gate failed_def)
      with err \<open>sub_hash sub1 r (fst e) = Return (kh, None)\<close> True show ?thesis
        by (simp add: map_body_gate vagree_def)
    next
      case (panic m)
      with assms(2) have "failed (val_hash sub2 r e)" by (simp add: agree_def)
      then have "fst (map_body sub2 r inc e h) \<noteq> Return None"
        using True k2
        by (cases "val_hash sub2 r e" rule: outcome_cases)
          (simp_all add: map_body_gate failed_def)
      with panic \<open>sub_hash sub1 r (fst e) = Return (kh, None)\<close> True show ?thesis
        by (simp add: map_body_gate vagree_def)
    qed
  next
    case (err kh e1)
    with assms(1) have "failed (sub_hash sub2 r (fst e))" by (simp add: agree_def)
    then have "fst (map_body sub2 r inc e h) \<noteq> Return None"
      using True
      by (cases "sub_hash sub2 r (fst e)" rule: outcome_cases)
        (simp_all add: map_body_gate failed_def)
    with err True show ?thesis by (simp add: map_body_gate vagree_def)
  next
    case (panic m)
    with assms(1) have "failed (sub_hash sub2 r (fst e))" by (simp add: agree_def)
    then have "fst (map_body sub2 r inc e h) \<noteq> Return None"
      using True
      by (cases "sub_hash sub2 r (fst e)" rule: outcome_cases)
        (simp_all add: map_body_gate failed_def)
    with panic True show ?thesis by (simp add: map_body_gate vagree_def)
  qed
qed

lemma set_body_vagree:
  assumes "agree (sub_hash sub1 r x) (sub_hash sub2 r x)"
  shows "vagree (set_body sub1 r x h) (set_body sub2 r x h)"
  using assms unfolding set_body_def
  by (cases "sub_hash sub1 r x" rule: outcome_cases; cases "sub_hash sub2 r x" rule: outcome_cases)
    (simp_all add: agree_def failed_def vagree_def)


lemma visit_iface:
  "visit env tag w (ValueOf (iface_of x)) None = visit env tag w (Some (Value x False False)) None"
proof (cases x)
  case (VInterface i)
  then show ?thesis
    by (cases i) (simp_all add: iface_of_def ValueOf_def visit_nil visit_indirect)
qed (simp_all add: iface_of_def ValueOf_def)

lemma sub_hash_Hash:
  "sub_hash (\<lambda>i. fst (Hash env i (None :: 's HashOptions option))) r x =
     (if r then Panic Interface_panic
      else finish (visit env ''hash'' (Crc64 0 (MakeTable ECMA) :: 's Hash64) (Some (Value x False False)) None))"
  by (cases r)
    (simp_all add: sub_hash_unexported sub_hash_exported Hash_fst tag_of_def hasher_of_def
      crc64_New_def visit_iface)

lemma written_total_vagree:
  "vagree l1 l2 \<Longrightarrow>
   vagree (case l1 of (Return None, h) \<Rightarrow> binary_Write w (Some (VUint64 h)) | (res, h) \<Rightarrow> (res, w))
          (case l2 of (Return None, h) \<Rightarrow> binary_Write w (Some (VUint64 h)) | (res, h) \<Rightarrow> (res, w))"
  by (cases l1; cases l2) (auto simp: vagree_def split: outcome.splits option.splits if_splits)

definition same_hooks_upto :: "nat \<Rightarrow> env \<Rightarrow> env \<Rightarrow> bool" where
  "same_hooks_upto n env1 env2 =
     (IncludableMap env1 = IncludableMap env2 \<and> (\<forall>q. size q \<le> n \<longrightarrow> Includable env1 q = Includable env2 q))"

lemma same_hooks_upto_mono: "same_hooks_upto n env1 env2 \<Longrightarrow> m \<le> n \<Longrightarrow> same_hooks_upto m env1 env2"
  by (auto simp: same_hooks_upto_def)

lemma include_map_same: "same_hooks_upto n env1 env2 \<Longrightarrow> include_map env1 opts = include_map env2 opts"
  by (auto simp: same_hooks_upto_def include_map_def split: option.splits)

lemma sub_hash_agree:
  assumes "vagree (visit env1 ''hash'' (Crc64 0 (MakeTable ECMA) :: 's Hash64) (Some (Value x False False)) None)
                  (visit env2 ''hash'' (Crc64 0 (MakeTable ECMA) :: 's Hash64) (Some (Value x False False)) None)"
  shows "agree (sub_hash (\<lambda>i. fst (Hash env1 i (None :: 's HashOptions option))) r x)
               (sub_hash (\<lambda>i. fst (Hash env2 i (None :: 's HashOptions option))) r x)"
proof (cases r)
  case True
  then show ?thesis by (simp add: sub_hash_Hash agree_def failed_def)
next
  case False
  with vagree_finish [OF assms] show ?thesis by (simp add: sub_hash_Hash)
qed

lemma field_body_vagree:
  assumes hooks: "Includable env1 p = Includable env2 p"
    and sub: "\<And>v opts. vagree (visit env1 tag w (Some (Value (snd f) a v)) opts)
                               (visit env2 tag w (Some (Value (snd f) a v)) opts)"
  shows "vagree (field_body env1 tag p a f w) (field_body env2 tag p a f w)"
proof -
  obtain incl err where h: "(case Includable env2 p of
                    None \<Rightarrow> (True, None)
                  | Some hook \<Rightarrow> hook (Name (fst f)) (Value_Field (Value p a False) f)) = (incl, err)"
    by (metis prod.collapse)
  show ?thesis
    unfolding field_body_def hooks h
    using sub by (cases incl; cases err) (simp_all add: Value_Field_def)
qed

lemma visit_env_vagree:
  fixes w :: "'s Hash64"
  shows "same_hooks_upto (size x) env1 env2 \<Longrightarrow>
     vagree (visit env1 tag w (Some (Value x a r)) opts) (visit env2 tag w (Some (Value x a r)) opts)"
proof (induction x arbitrary: tag w a r opts rule: gval_induct)
  case (leaf x)
  then show ?case
    by (cases x rule: leaf.cases) (simp_all add: visit_eqs)
next
  case (ptr x)
  from ptr.prems have "same_hooks_upto (size x) env1 env2"
    by (rule same_hooks_upto_mono) simp
  from ptr.IH [OF this] show ?case by (simp add: visit_indirect)
next
  case (iface x)
  from iface.prems have "same_hooks_upto (size x) env1 env2"
    by (rule same_hooks_upto_mono) simp
  from iface.IH [OF this] show ?case by (simp add: visit_indirect)
next
  case (array xs)
  have "\<forall>x \<in> set xs. \<forall>w :: 's Hash64. vagree (visit env1 tag w (Some (Value x a r)) None)
                                 (visit env2 tag w (Some (Value x a r)) None)"
  proof (intro ballI allI)
    fix x w assume x: "x \<in> set xs"
    from array.prems have "same_hooks_upto (size x) env1 env2"
      by (rule same_hooks_upto_mono) (use size_child(1) [OF x] in simp)
    from array.IH [OF x this] show "vagree (visit env1 tag (w :: 's Hash64) (Some (Value x a r)) None)
                                 (visit env2 tag w (Some (Value x a r)) None)" .
  qed
  then show ?case
    unfolding visit_VArray by (rule for_each_vagree)
next
  case (slice xs)
  let ?sub1 = "\<lambda>i. fst (Hash env1 i (None :: 's HashOptions option))"
  let ?sub2 = "\<lambda>i. fst (Hash env2 i (None :: 's HashOptions option))"
  have each: "same_hooks_upto (size x) env1 env2" if "x \<in> set xs" for x
    using slice.prems by (rule same_hooks_upto_mono) (use size_child(2) [OF that] in simp)
  show ?case
  proof (cases "is_set opts")
    case True
    have "vagree (for_each (set_body ?sub1 r) xs 0) (for_each (set_body ?sub2 r) xs 0)"
    proof (rule total_vagree [where ?res1.0 = "\<lambda>x. fst (set_body ?sub1 r x 0)" and ?d1.0 = "\<lambda>x. snd (set_body ?sub1 r x 0)"
          and ?res2.0 = "\<lambda>x. fst (set_body ?sub2 r x 0)" and ?d2.0 = "\<lambda>x. snd (set_body ?sub2 r x 0)"])
      show "\<forall>x\<in>set xs. \<forall>h. set_body ?sub1 r x h = (fst (set_body ?sub1 r x 0), h XOR snd (set_body ?sub1 r x 0))"
        using set_body_total by blast
      show "\<forall>x\<in>set xs. \<forall>h. set_body ?sub2 r x h = (fst (set_body ?sub2 r x 0), h XOR snd (set_body ?sub2 r x 0))"
        using set_body_total by blast
      show "\<forall>x\<in>set xs. vagree (fst (set_body ?sub1 r x 0), snd (set_body ?sub1 r x 0))
                               (fst (set_body ?sub2 r x 0), snd (set_body ?sub2 r x 0))"
      proof
        fix x assume x: "x \<in> set xs"
        have "agree (sub_hash ?sub1 r x) (sub_hash ?sub2 r x)"
          using slice.IH [OF x each [OF x], of "''hash''" "Crc64 0 (MakeTable ECMA)" False False None]
          by (rule sub_hash_agree)
        from set_body_vagree [OF this, of 0]
        show "vagree (fst (set_body ?sub1 r x 0), snd (set_body ?sub1 r x 0))
                     (fst (set_body ?sub2 r x 0), snd (set_body ?sub2 r x 0))" by simp
      qed
      show "mset xs = mset xs" by simp
    qed
    from written_total_vagree [OF this, of w] True show ?thesis
      by (simp add: visit_VSlice)
  next
    case False
    have "\<forall>x \<in> set xs. \<forall>w :: 's Hash64. vagree (visit env1 tag w (Some (Value x True r)) None)
                                 (visit env2 tag w (Some (Value x True r)) None)"
      using slice.IH each by blast
    from for_each_vagree [OF this, of w] False show ?thesis
      by (simp add: visit_VSlice)
  qed
next
  case (map es)
  let ?sub1 = "\<lambda>i. fst (Hash env1 i (None :: 's HashOptions option))"
  let ?sub2 = "\<lambda>i. fst (Hash env2 i (None :: 's HashOptions option))"
  let ?inc = "include_map env1 opts"
  have inc: "include_map env2 opts = ?inc"
    using include_map_same [OF map.prems] by simp
  have sub: "agree (sub_hash ?sub1 r x) (sub_hash ?sub2 r x)"
    if "same_hooks_upto (size x) env1 env2"
      and "\<And>tag (w :: 's Hash64) a r opts. same_hooks_upto (size x) env1 env2 \<Longrightarrow>
             vagree (visit env1 tag w (Some (Value x a r)) opts) (visit env2 tag w (Some (Value x a r)) opts)"
    for x
    using that(2) [OF that(1), of "''hash''" "Crc64 0 (MakeTable ECMA)" False False None]
    by (rule sub_hash_agree)
  have "vagree (for_each (map_body ?sub1 r ?inc) (MapKeys env1 es) 0)
               (for_each (map_body ?sub2 r ?inc) (MapKeys env2 es) 0)"
  proof (rule total_vagree [where ?res1.0 = "\<lambda>e. fst (map_body ?sub1 r ?inc e 0)" and ?d1.0 = "\<lambda>e. snd (map_body ?sub1 r ?inc e 0)"
          and ?res2.0 = "\<lambda>e. fst (map_body ?sub2 r ?inc e 0)" and ?d2.0 = "\<lambda>e. snd (map_body ?sub2 r ?inc e 0)"])
    show "\<forall>e\<in>set (MapKeys env1 es). \<forall>h. map_body ?sub1 r ?inc e h = (fst (map_body ?sub1 r ?inc e 0), h XOR snd (map_body ?sub1 r ?inc e 0))"
      using map_body_total by blast
    show "\<forall>e\<in>set (MapKeys env1 es). \<forall>h. map_body ?sub2 r ?inc e h = (fst (map_body ?sub2 r ?inc e 0), h XOR snd (map_body ?sub2 r ?inc e 0))"
      using map_body_total by blast
    show "\<forall>e\<in>set (MapKeys env1 es). vagree (fst (map_body ?sub1 r ?inc e 0), snd (map_body ?sub1 r ?inc e 0))
                               (fst (map_body ?sub2 r ?inc e 0), snd (map_body ?sub2 r ?inc e 0))"
    proof
      fix e assume "e \<in> set (MapKeys env1 es)"
      then have e: "e \<in> set es" by simp
      have k: "same_hooks_upto (size (fst e)) env1 env2"
        using map.prems by (rule same_hooks_upto_mono) (use size_child(3) [OF e] in simp)
      have v: "same_hooks_upto (size (snd e)) env1 env2"
        using map.prems by (rule same_hooks_upto_mono) (use size_child(4) [OF e] in simp)
      have "agree (sub_hash ?sub1 r (fst e)) (sub_hash ?sub2 r (fst e))"
        using map.IH [OF e] k by (intro sub) blast+
      moreover have "agree (sub_hash ?sub1 r (snd e)) (sub_hash ?sub2 r (snd e))"
        using map.IH [OF e] v by (intro sub) blast+
      then have "agree (val_hash ?sub1 r e) (val_hash ?sub2 r e)"
        by (simp add: val_hash_sub_hash agree_def failed_def)
      ultimately show "vagree (fst (map_body ?sub1 r ?inc e 0), snd (map_body ?sub1 r ?inc e 0))
                               (fst (map_body ?sub2 r ?inc e 0), snd (map_body ?sub2 r ?inc e 0))"
        using map_body_vagree [of ?sub1 r e ?sub2 ?inc 0] by simp
    qed
    show "mset (MapKeys env1 es) = mset (MapKeys env2 es)" by simp
  qed
  from written_total_vagree [OF this, of w] show ?case
    by (simp add: visit_VMap inc)
next
  case (struct tn fs)
  show ?case
  proof (cases r)
    case True
    then show ?thesis by (simp add: visit_VStruct)
  next
    case False
    have hooks: "Includable env1 (VStruct tn fs) = Includable env2 (VStruct tn fs)"
      using struct.prems by (simp add: same_hooks_upto_def)
    have "\<forall>f \<in> set fs. \<forall>w :: 's Hash64. vagree (field_body env1 tag (VStruct tn fs) a f w)
                                 (field_body env2 tag (VStruct tn fs) a f w)"
    proof (intro ballI allI)
      fix f and w :: "'s Hash64" assume f: "f \<in> set fs"
      have "same_hooks_upto (size (snd f)) env1 env2"
        using struct.prems by (rule same_hooks_upto_mono) (use size_child(5) [OF f, of tn] in simp)
      from struct.IH [OF f this] hooks
      show "vagree (field_body env1 tag (VStruct tn fs) a f w) (field_body env2 tag (VStruct tn fs) a f w)"
        by (intro field_body_vagree) simp_all
    qed
    from for_each_vagree [OF this, of w] False show ?thesis
      by (simp add: visit_VStruct)
  qed
qed

section \<open>Values wrapped in references\<close>

text \<open>
  A pointer to a value, or an interface slot holding it: \<open>wrap ws x\<close> wraps \<open>x\<close> in the
  layers \<open>ws\<close>, outermost first.
\<close>

datatype wrapper = Pointer | Boxed

fun wrap :: "wrapper list \<Rightarrow> gval \<Rightarrow> gval" where
  "wrap [] x = x"
| "wrap (Pointer # ws) x = VPtr (Some (wrap ws x))"
| "wrap (Boxed # ws) x = VInterface (Some (wrap ws x))"

lemma visit_wrap_flags:
  "\<exists>a' r'. (\<forall>env tag w opts.
      visit env tag w (Some (Value (wrap ws x) a r)) opts = visit env tag (w :: 's Hash64) (Some (Value x a' r')) opts)
    \<and> (r' = r) \<and> (ws = [] \<longrightarrow> a' = a)"
proof (induction ws arbitrary: a)
  case Nil
  show ?case by auto
next
  case (Cons l ws)
  show ?case
  proof (cases l)
    case Pointer
    from Cons [of True] obtain a' where
      "\<forall>env tag w opts. visit env tag w (Some (Value (wrap ws x) True r)) opts
         = visit env tag (w :: 's Hash64) (Some (Value x a' r)) opts"
      by blast
    with Pointer show ?thesis by (auto simp: visit_indirect)
  next
    case Boxed
    from Cons [of False] obtain a' where
      "\<forall>env tag w opts. visit env tag w (Some (Value (wrap ws x) False r)) opts
         = visit env tag (w :: 's Hash64) (Some (Value x a' r)) opts"
      by blast
    with Boxed show ?thesis by (auto simp: visit_indirect)
  qed
qed

lemma visit_wrap_nil:
  "visit env tag w (Some (Value (wrap ws (VPtr None)) a r)) opts = binary_Write w (Some (VInt8 0))"
  "visit env tag w (Some (Value (wrap ws (VInterface None)) a r)) opts = binary_Write w (Some (VInt8 0))"
  using visit_wrap_flags [of ws "VPtr None" a r, where ?'s = 'a]
    visit_wrap_flags [of ws "VInterface None" a r, where ?'s = 'a]
  by (auto simp: visit_nil)

section \<open>The accumulator stays the caller's\<close>

text \<open>
  \<open>same_kind w w'\<close>: \<open>w'\<close> is the accumulator \<open>w\<close> in a later state. It has the same
  methods (the same table, for the CRC); only the state differs.
\<close>

fun same_kind :: "'s Hash64 \<Rightarrow> 's Hash64 \<Rightarrow> bool" where
  "same_kind (Crc64 c t) (Crc64 c' t') = (t' = t)"
| "same_kind (Custom s wr rs sm) (Custom s' wr' rs' sm') = (wr' = wr \<and> rs' = rs \<and> sm' = sm)"
| "same_kind w w' = False"

lemma same_kind_refl [simp]: "same_kind w w"
  by (cases w) simp_all

lemma same_kind_trans: "same_kind w w' \<Longrightarrow> same_kind w' w'' \<Longrightarrow> same_kind w w''"
  by (cases w; cases w'; cases w'') simp_all

lemma same_kind_Write: "same_kind w (fst (Write w p))"
  by (cases w) (simp_all split: prod.splits)

lemma same_kind_Reset: "same_kind w (Reset w)"
  by (cases w) simp_all

lemma same_kind_binary_Write: "same_kind w (snd (binary_Write w d))"
proof (cases d)
  case None
  then show ?thesis by (simp add: binary_Write_def)
next
  case (Some x)
  show ?thesis
  proof (cases "encode x")
    case None
    with Some show ?thesis by (simp add: binary_Write_def)
  next
    case (Some bs)
    with \<open>d = Some x\<close> same_kind_Write [of w bs] show ?thesis
      by (cases "Write w bs") (simp add: binary_Write_def)
  qed
qed

lemma same_kind_write_numeric: "same_kind w (snd (write_numeric w r x))"
  by (simp add: write_numeric_def same_kind_binary_Write)

lemma same_kind_string: "same_kind w (snd (case Write w s of (w', err) \<Rightarrow> (Return err, w')))"
  using same_kind_Write [of w s] by (cases "Write w s") simp

lemma for_each_invariant:
  "\<forall>x \<in> set xs. \<forall>s. I s \<longrightarrow> I (snd (f x s)) \<Longrightarrow> I s \<Longrightarrow> I (snd (for_each f xs s))"
proof (induction xs arbitrary: s)
  case Nil
  then show ?case by simp
next
  case (Cons x xs)
  have step: "I (snd (f x s))" using Cons.prems by simp
  have rest: "\<forall>y \<in> set xs. \<forall>s. I s \<longrightarrow> I (snd (f y s))" using Cons.prems by simp
  show ?case
  proof (cases "f x s")
    case (Pair res s')
    with step have "I s'" by simp
    with Pair Cons.IH [OF rest, of s'] show ?thesis
      by (cases res rule: outcome.exhaust) (auto split: option.splits)
  qed
qed

lemma same_kind_written_total:
  "same_kind w (snd (case l of (Return None, h) \<Rightarrow> binary_Write w (Some (VUint64 h)) | (res, h) \<Rightarrow> (res, w)))"
  using same_kind_binary_Write [of w]
  by (cases l) (auto split: outcome.splits option.splits)

lemma same_kind_field_body:
  assumes "\<And>v opts. same_kind w (snd (visit env tag w (Some (Value (snd f) a v)) opts))"
  shows "same_kind w (snd (field_body env tag p a f w))"
proof -
  obtain incl err where h: "(case Includable env p of
                    None \<Rightarrow> (True, None)
                  | Some hook \<Rightarrow> hook (Name (fst f)) (Value_Field (Value p a False) f)) = (incl, err)"
    by (metis prod.collapse)
  show ?thesis
    unfolding field_body_def h
    using assms by (cases incl; cases err) (simp_all add: Value_Field_def)
qed

lemma same_kind_visit_value:
  "same_kind w (snd (visit env tag w (Some (Value x a r)) opts))"
proof (induction x arbitrary: tag w a r opts rule: gval_induct)
  case (leaf x)
  then show ?case
    by (cases x rule: leaf.cases)
      (simp_all add: visit_eqs same_kind_write_numeric same_kind_binary_Write same_kind_string)
next
  case (ptr x)
  then show ?case by (simp add: visit_indirect)
next
  case (iface x)
  then show ?case by (simp add: visit_indirect)
next
  case (array xs)
  have "\<forall>x \<in> set xs. \<forall>s. same_kind w s \<longrightarrow> same_kind w (snd (visit env tag s (Some (Value x a r)) None))"
    using array.IH same_kind_trans by blast
  from for_each_invariant [where I = "same_kind w", OF this] show ?case
    by (simp add: visit_VArray)
next
  case (slice xs)
  have "\<forall>x \<in> set xs. \<forall>s. same_kind w s \<longrightarrow> same_kind w (snd (visit env tag s (Some (Value x True r)) None))"
    using slice.IH same_kind_trans by blast
  from for_each_invariant [where I = "same_kind w", OF this] show ?case
    by (simp add: visit_VSlice same_kind_written_total)
next
  case (map es)
  show ?case by (simp add: visit_VMap same_kind_written_total)
next
  case (struct tn fs)
  have "\<forall>f \<in> set fs. \<forall>s. same_kind w s \<longrightarrow> same_kind w (snd (field_body env tag (VStruct tn fs) a f s))"
  proof (intro ballI allI impI)
    fix f s assume f: "f \<in> set fs" and s: "same_kind w s"
    have "same_kind s (snd (field_body env tag (VStruct tn fs) a f s))"
      by (rule same_kind_field_body) (rule struct.IH [OF f])
    with s show "same_kind w (snd (field_body env tag (VStruct tn fs) a f s))"
      by (rule same_kind_trans)
  qed
  from for_each_invariant [where I = "same_kind w", OF this] show ?case
    by (simp add: visit_VStruct)
qed

lemma same_kind_visit: "same_kind w (snd (visit env tag w v opts))"
proof (cases v)
  case None
  then show ?thesis using same_kind_binary_Write [of w] by (simp add: visit_nil)
next
  case (Some x)
  then show ?thesis by (cases x) (simp add: same_kind_visit_value)
qed

section \<open>Claim C3: an absent reference\<close>

text \<open>
  C3 (as stated): hashing a nil reference yields the digest of the zero value of the
  referenced kind, for instance a nil pointer to \<^verbatim>\<open>int64\<close> and \<^verbatim>\<open>int64(0)\<close>.
  With the default options the two digests differ: the nil pointer is hashed as the one
  byte of an \<^verbatim>\<open>int8\<close> zero, \<^verbatim>\<open>int64(0)\<close> as eight bytes.
\<close>

theorem C3_nil_pointer_counterexample:
  "fst (Hash env0 (Some (VPtr None)) (None :: unit HashOptions option)) = Return (2282658103124508505, None)
   \<and> fst (Hash env0 (Some (VInt64 0)) (None :: unit HashOptions option)) = Return (13144445341178972864, None)
   \<and> fst (Hash env0 (Some (VPtr None)) (None :: unit HashOptions option))
     \<noteq> fst (Hash env0 (Some (VInt64 0)) (None :: unit HashOptions option))"
proof -
  have nil: "fst (Hash env0 (Some (VPtr None)) (None :: unit HashOptions option)) = Return (2282658103124508505, None)"
    by (simp add: Hash_fst finish_def tag_of_def hasher_of_def crc64_New_def ValueOf_def visit_eqs
        binary_Write_def le_bytes_eval crc_eval)
  have zero: "fst (Hash env0 (Some (VInt64 0)) (None :: unit HashOptions option)) = Return (13144445341178972864, None)"
    by (simp add: Hash_fst finish_def tag_of_def hasher_of_def crc64_New_def ValueOf_def visit_eqs
        write_numeric_def binary_Write_def le_bytes_eval crc_eval)
  show ?thesis by (simp add: nil zero)
qed

text \<open>
  C3 (amended): a nil pointer, a nil interface and the nil argument, under any layers of
  pointers and interfaces, are hashed as the \<^verbatim>\<open>int8\<close> zero, whatever kind the reference
  refers to; so is \<^verbatim>\<open>false\<close>. The call returns the same digest and leaves the caller's
  options in the same state as the call on \<^verbatim>\<open>int8(0)\<close>.
\<close>

theorem C3_nil_is_int8_zero:
  "Hash env (Some (wrap ws (VPtr None))) opts = Hash env (Some (VInt8 0)) opts
   \<and> Hash env (Some (wrap ws (VInterface None))) opts = Hash env (Some (VInt8 0)) opts
   \<and> Hash env None opts = Hash env (Some (VInt8 0)) opts
   \<and> Hash env (Some (VBool False)) opts = Hash env (Some (VInt8 0)) opts"
  by (cases opts)
    (simp_all add: Hash_unfold ValueOf_def visit_wrap_nil visit_nil visit_widened visit_numeric
      write_numeric_def)

section \<open>Claim C5: the order of a map's entries\<close>



lemma hash_A1_B2:
  "fst (Hash env0 (Some (VMap [(str ''A'', VInt 1), (str ''B'', VInt 2)])) (None :: unit HashOptions option))
     = Return (12169040754408921707, None)"
  by (simp add: hash_struct) (simp add: crc_bytes)


section \<open>Claim C1: what the pairing of key and value achieves\<close>

text \<open>
  C1 (as stated): pairing the sub-digest of a key with the sub-digest of its value before
  folding prevents cross-entry collisions, so that \<^verbatim>\<open>{A:1, B:2}\<close> and \<^verbatim>\<open>{A:2, B:1}\<close>
  receive different digests. They receive the same digest.
\<close>

lemma hash_A2_B1:
  "fst (Hash env0 (Some (VMap [(str ''A'', VInt 2), (str ''B'', VInt 1)])) (None :: unit HashOptions option))
     = Return (12169040754408921707, None)"
  by (simp add: hash_struct) (simp add: crc_bytes)





section \<open>Claim C2: unexported members\<close>

text \<open>
  C2: two records that differ only in the content of an unexported member receive the
  same digest. The documentation of \<open>Hash\<close> says so too: unexported fields on structs are
  ignored and do not affect the hash value. But the loop over the members of a record
  skips a member only when it is named \<^verbatim>\<open>_\<close> and cannot be set; it never looks at whether
  the member is exported. With \<^verbatim>\<open>type T struct{ Foo string; bar string }\<close>, the values
  \<^verbatim>\<open>T{"a", "b"}\<close> and \<^verbatim>\<open>T{"a", "c"}\<close> receive different digests; and with
  \<^verbatim>\<open>type U struct{ Foo string; n int64 }\<close> the call panics, because \<^verbatim>\<open>Interface\<close> is called on
  the unexported member.
\<close>

theorem C2_unexported_member_is_hashed:
  "fst (Hash env0 (Some (VStruct ''T'' [(\<lparr>Name = ''Foo'', PkgPath = [], Tag = []\<rparr>, str ''a''),
          (\<lparr>Name = ''bar'', PkgPath = ''main'', Tag = []\<rparr>, str ''b'')]))
        (None :: unit HashOptions option)) = Return (13575383233297952838, None)
   \<and> fst (Hash env0 (Some (VStruct ''T'' [(\<lparr>Name = ''Foo'', PkgPath = [], Tag = []\<rparr>, str ''a''),
          (\<lparr>Name = ''bar'', PkgPath = ''main'', Tag = []\<rparr>, str ''c'')]))
        (None :: unit HashOptions option)) = Return (1102044481880059689, None)
   \<and> fst (Hash env0 (Some (VStruct ''U'' [(\<lparr>Name = ''Foo'', PkgPath = [], Tag = []\<rparr>, str ''a''),
          (\<lparr>Name = ''n'', PkgPath = ''main'', Tag = []\<rparr>, VInt64 0)]))
        (None :: unit HashOptions option)) = Panic Interface_panic"
proof -
  have b: "fst (Hash env0 (Some (VStruct ''T'' [(\<lparr>Name = ''Foo'', PkgPath = [], Tag = []\<rparr>, str ''a''),
          (\<lparr>Name = ''bar'', PkgPath = ''main'', Tag = []\<rparr>, str ''b'')]))
        (None :: unit HashOptions option)) = Return (13575383233297952838, None)"
    by (simp add: hash_struct hash_record) (simp add: crc_bytes)
  have c: "fst (Hash env0 (Some (VStruct ''T'' [(\<lparr>Name = ''Foo'', PkgPath = [], Tag = []\<rparr>, str ''a''),
          (\<lparr>Name = ''bar'', PkgPath = ''main'', Tag = []\<rparr>, str ''c'')]))
        (None :: unit HashOptions option)) = Return (1102044481880059689, None)"
    by (simp add: hash_struct hash_record) (simp add: crc_bytes)
  have n: "fst (Hash env0 (Some (VStruct ''U'' [(\<lparr>Name = ''Foo'', PkgPath = [], Tag = []\<rparr>, str ''a''),
          (\<lparr>Name = ''n'', PkgPath = ''main'', Tag = []\<rparr>, VInt64 0)]))
        (None :: unit HashOptions option)) = Panic Interface_panic"
    by (simp add: hash_struct hash_record)
  show ?thesis by (intro conjI b c n)
qed

section \<open>Claim C9: the caller's options after the call\<close>

text \<open>
  C9 (as stated): a call of \<open>Hash\<close> with non-nil options leaves every field of the caller's
  options unchanged, also when a field was left at its zero value and the default is
  applied. The defaults are assigned through the pointer: after a call with
  \<^verbatim>\<open>&HashOptions{}\<close> the caller's options hold a CRC-64 accumulator, here in the state after
  the eight bytes of \<^verbatim>\<open>int64(0)\<close>, and the tag name \<^verbatim>\<open>"hash"\<close>.
\<close>

theorem C9_defaults_are_written_to_the_options:
  "snd (Hash env0 (Some (VInt64 0)) (Some \<lparr>Hasher = None, TagName = []\<rparr> :: unit HashOptions option))
     = Some \<lparr>Hasher = Some (Crc64 13144445341178972864 (MakeTable ECMA)), TagName = ''hash''\<rparr>
   \<and> snd (Hash env0 (Some (VInt64 0)) (Some \<lparr>Hasher = None, TagName = []\<rparr> :: unit HashOptions option))
     \<noteq> Some \<lparr>Hasher = None, TagName = []\<rparr>"
  by (simp add: Hash_snd tag_of_def hasher_of_def crc64_New_def ValueOf_def visit_eqs
        write_numeric_def binary_Write_def le_bytes_eval crc_eval)

text \<open>
  C9 (amended): after a call of \<open>Hash\<close> with non-nil options, the caller's options hold as
  \<^verbatim>\<open>TagName\<close> the caller's tag name if it was not empty and \<^verbatim>\<open>"hash"\<close> otherwise, and as
  \<^verbatim>\<open>Hasher\<close> the caller's accumulator if there was one and a new CRC-64/ECMA accumulator
  otherwise, in the state in which the call left it after resetting it and writing to it.
  So a field that was set is kept (the accumulator as an object: its methods, or its table,
  are the same, its state is not), and a field left at its zero value is overwritten with
  its default.
\<close>

theorem C9_options_after_call:
  fixes given :: "'s HashOptions"
  shows "snd (Hash env v (Some given)) =
           Some \<lparr>Hasher = Some (snd (visit env (tag_of (Some given)) (Reset (hasher_of (Some given))) (ValueOf v) None)),
                 TagName = tag_of (Some given)\<rparr>
     \<and> tag_of (Some given) = (if TagName given = [] then ''hash'' else TagName given)
     \<and> hasher_of (Some given) = (case Hasher given of None \<Rightarrow> crc64_New (MakeTable ECMA) | Some h \<Rightarrow> h)
     \<and> same_kind (hasher_of (Some given))
          (snd (visit env (tag_of (Some given)) (Reset (hasher_of (Some given))) (ValueOf v) None))"
proof (intro conjI)
  show "same_kind (hasher_of (Some given))
          (snd (visit env (tag_of (Some given)) (Reset (hasher_of (Some given))) (ValueOf v) None))"
    by (rule same_kind_trans [OF same_kind_Reset same_kind_visit])
qed (simp_all add: Hash_snd tag_of_def hasher_of_def)


theorem C9_options_after_call_witness:
  "snd (Hash env0 (Some (VFunc)) (Some \<lparr>Hasher = Some (Crc64 5 (MakeTable ECMA)), TagName = ''custom''\<rparr> :: unit HashOptions option))
     = Some \<lparr>Hasher = Some (Crc64 0 (MakeTable ECMA)), TagName = ''custom''\<rparr>"
  using C9_options_after_call [of env0 "Some VFunc" "\<lparr>Hasher = Some (Crc64 5 (MakeTable ECMA)), TagName = ''custom''\<rparr> :: unit HashOptions"]
  by (simp add: ValueOf_def visit_eqs)

end
